theory Spec2Isabelle
  imports Complex_Main "HOL-Library.Sublist"
begin

section \<open>Configuration constants\<close>

text \<open>
  The PDF generator of \<^verbatim>\<open>lib/pdf.js\<close>. JavaScript numbers are modelled as
  real numbers: there is no rounding, no NaN, no infinity and no negative zero. Where
  the source divides, the places at which the divisor can be zero are named beside the
  definition.
\<close>

definition PAGE_WIDTH :: real where "PAGE_WIDTH = 612"
definition PAGE_HEIGHT :: real where "PAGE_HEIGHT = 792"

text \<open>\<^verbatim>\<open>ORG_CONFIG.pdf.margins\<close> and \<^verbatim>\<open>ORG_CONFIG.pdf.fonts\<close> of \<^verbatim>\<open>config/org.js\<close>.\<close>

definition margins_top :: real where "margins_top = 50"
definition margins_bottom :: real where "margins_bottom = 50"
definition margins_left :: real where "margins_left = 50"
definition margins_right :: real where "margins_right = 50"

definition fonts_title :: real where "fonts_title = 20"
definition fonts_heading :: real where "fonts_heading = 14"
definition fonts_subheading :: real where "fonts_subheading = 12"
definition fonts_body :: real where "fonts_body = 10"

definition ORG_CONFIG_name :: string where "ORG_CONFIG_name = ''Cordell Hull Foundation''"
definition ORG_CONFIG_address :: "string list" where
  "ORG_CONFIG_address = [''1701 Pennsylvania Avenue NW'', ''Suite 200'', ''Washington, DC 20006'']"
definition ORG_CONFIG_website :: string where
  "ORG_CONFIG_website = ''www.cordellhullfoundation.org''"

text \<open>\<^verbatim>\<open>IMAGE_CONFIG\<close> of \<^verbatim>\<open>lib/image.js\<close>: the 1600 x 900 target of processed photos.\<close>

definition IMAGE_CONFIG_width :: real where "IMAGE_CONFIG_width = 1600"
definition IMAGE_CONFIG_height :: real where "IMAGE_CONFIG_height = 900"

text \<open>\<^verbatim>\<open>this.contentWidth\<close>, set once in the constructor.\<close>

definition contentWidth :: real where
  "contentWidth = PAGE_WIDTH - margins_left - margins_right"

section \<open>The document and the external library\<close>

text \<open>The two embedded standard fonts (\<^verbatim>\<open>this.font\<close>, \<^verbatim>\<open>this.fontBold\<close>) and the
  entries of \<^verbatim>\<open>this.colors\<close>.\<close>

datatype font = Helvetica | HelveticaBold

datatype color = Primary | Secondary | Accent | LightGray | TextColor

text \<open>A \<^verbatim>\<open>Uint8Array\<close> and an embedded image (a \<^verbatim>\<open>PDFImage\<close> with its decoded size).\<close>

type_synonym bytes = "nat list"

record pdf_image =
  width :: real
  height :: real

text \<open>
  What a page receives, in the order of the calls:
  \<^verbatim>\<open>drawText(text, {x, y, size, font, color})\<close>,
  \<^verbatim>\<open>drawImage(image, {x, y, width, height})\<close>,
  \<^verbatim>\<open>drawLine({start, end, thickness, color})\<close> and
  \<^verbatim>\<open>drawRectangle({x, y, width, height, color})\<close>.
\<close>

datatype drawing =
  DrawText string real real real font color
| DrawImage pdf_image real real real real
| DrawLine real real real real real color
| DrawRectangle real real real real color

type_synonym page = "drawing list"

text \<open>
  The parts of pdf-lib and of the JavaScript runtime that the source calls and that are
  not part of the repository: the font metrics \<^verbatim>\<open>font.widthOfTextAtSize(text, size)\<close>,
  the decoders \<^verbatim>\<open>pdfDoc.embedJpg\<close> and \<^verbatim>\<open>pdfDoc.embedPng\<close> (\<open>None\<close> when the call
  throws), and the conversion of a number to a string in a template literal. They are
  parameters of every function that uses them.
\<close>

record pdf_lib =
  widthOfTextAtSize :: "font \<Rightarrow> string \<Rightarrow> real \<Rightarrow> real"
  embedJpg :: "bytes \<Rightarrow> pdf_image option"
  embedPng :: "bytes \<Rightarrow> pdf_image option"
  numberToString :: "real \<Rightarrow> string"

datatype error = DecodeError

text \<open>
  The generator after \<^verbatim>\<open>init()\<close>: \<^verbatim>\<open>pdfDoc\<close> and \<^verbatim>\<open>currentPage\<close> are not null.
  \<^verbatim>\<open>currentPage\<close> is only ever assigned the page that \<^verbatim>\<open>addPage\<close> has just appended,
  so it is the last page of the document; the pages before it are \<open>previousPages\<close>.
\<close>

record generator =
  previousPages :: "page list"
  currentPage :: page
  currentY :: real

definition pages :: "generator \<Rightarrow> page list" where
  "pages g = previousPages g @ [currentPage g]"

text \<open>\<^verbatim>\<open>init()\<close>: a new document whose first page comes from \<^verbatim>\<open>addNewPage()\<close>.\<close>

definition init :: generator where
  "init = \<lparr>previousPages = [], currentPage = [], currentY = PAGE_HEIGHT - margins_top\<rparr>"

definition addNewPage :: "generator \<Rightarrow> generator" where
  "addNewPage g =
     g\<lparr>previousPages := previousPages g @ [currentPage g],
       currentPage := [],
       currentY := PAGE_HEIGHT - margins_top\<rparr>"

text \<open>Returns whether a page was added, and the generator.\<close>

definition addPageIfNeeded :: "real \<Rightarrow> generator \<Rightarrow> bool \<times> generator" where
  "addPageIfNeeded neededHeight g =
     (if currentY g - neededHeight < margins_bottom then (True, addNewPage g)
      else (False, g))"

text \<open>A drawing call on \<^verbatim>\<open>this.currentPage\<close>.\<close>

definition draw :: "drawing \<Rightarrow> generator \<Rightarrow> generator" where
  "draw d g = g\<lparr>currentPage := currentPage g @ [d]\<rparr>"

section \<open>Strings\<close>

text \<open>
  A character stands for one code unit in the range U+0000 to U+00FF. The class
  \<^verbatim>\<open>\s\<close> and \<^verbatim>\<open>trim()\<close> use the same set: tab, line feed, vertical tab, form feed,
  carriage return, space and no-break space in this range.
\<close>

definition isWhiteSpace :: "char \<Rightarrow> bool" where
  "isWhiteSpace c \<longleftrightarrow> of_char c \<in> {9, 10, 11, 12, 13, 32, 160 :: nat}"

definition trim :: "string \<Rightarrow> string" where
  "trim s = rev (dropWhile isWhiteSpace (rev (dropWhile isWhiteSpace s)))"

text \<open>
  \<^verbatim>\<open>str.split(/\s+/)\<close>: the pieces between the maximal runs of white space. A string
  that starts or ends with white space gives an empty first or last piece, and the
  empty string gives one empty piece. \<open>cur\<close> is the piece read so far.
\<close>

function splitWhiteSpace :: "string \<Rightarrow> string \<Rightarrow> string list" where
  "splitWhiteSpace cur [] = [cur]"
| "splitWhiteSpace cur (c # cs) =
     (if isWhiteSpace c then cur # splitWhiteSpace [] (dropWhile isWhiteSpace cs)
      else splitWhiteSpace (cur @ [c]) cs)"
  by pat_completeness auto
termination
  by (relation "measure (\<lambda>(cur, s). length s)")
     (auto simp: le_imp_less_Suc length_dropWhile_le)

definition split_ws :: "string \<Rightarrow> string list" where
  "split_ws s = splitWhiteSpace [] s"

section \<open>Wrapped text\<close>

text \<open>
  The options of \<^verbatim>\<open>drawWrappedText\<close> with their defaults filled in.
\<close>

record text_options =
  fontSize :: real
  font :: font
  color :: color
  lineHeight :: real
  align :: string

definition default_options :: text_options where
  "default_options =
     \<lparr>fontSize = fonts_body, font = Helvetica, color = TextColor,
      lineHeight = 13 / 10, align = ''left''\<rparr>"

text \<open>
  The first loop of \<^verbatim>\<open>drawWrappedText\<close>, one word at a time: \<open>W\<close> is the measured
  width of a line at the chosen font and size, the state is \<open>(lines, currentLine)\<close>.
\<close>

definition breakStep ::
  "(string \<Rightarrow> real) \<Rightarrow> real \<Rightarrow> string list \<times> string \<Rightarrow> string
     \<Rightarrow> string list \<times> string" where
  "breakStep W maxWidth st word =
     (let lines = fst st; currentLine = snd st;
          testLine = (if currentLine \<noteq> [] then currentLine @ '' '' @ word else word);
          testWidth = W testLine
      in if testWidth > maxWidth \<and> currentLine \<noteq> []
         then (lines @ [currentLine], word)
         else (lines, testLine))"

text \<open>The loop over all words and the push of the last line.\<close>

definition breakLines :: "(string \<Rightarrow> real) \<Rightarrow> real \<Rightarrow> string list \<Rightarrow> string list" where
  "breakLines W maxWidth words =
     (let st = foldl (breakStep W maxWidth) ([], []) words;
          lines = fst st; currentLine = snd st
      in if currentLine \<noteq> [] then lines @ [currentLine] else lines)"

text \<open>The body of the second loop: one line is drawn and the cursor moves down.\<close>

definition drawTextLine ::
  "pdf_lib \<Rightarrow> real \<Rightarrow> real \<Rightarrow> text_options \<Rightarrow> generator \<Rightarrow> string \<Rightarrow> generator" where
  "drawTextLine L x maxWidth opts g line =
     (let actualLineHeight = fontSize opts * lineHeight opts;
          g1 = (if currentY g - actualLineHeight < margins_bottom then addNewPage g else g);
          drawX =
            (if align opts = ''center''
             then x + (maxWidth - widthOfTextAtSize L (font opts) line (fontSize opts)) / 2
             else if align opts = ''right''
             then x + maxWidth - widthOfTextAtSize L (font opts) line (fontSize opts)
             else x);
          g2 = draw (DrawText line drawX (currentY g1 - fontSize opts) (fontSize opts)
                       (font opts) (color opts)) g1
      in g2\<lparr>currentY := currentY g2 - actualLineHeight\<rparr>)"

text \<open>
  \<^verbatim>\<open>drawWrappedText(text, x, maxWidth, options)\<close>; an absent text is \<open>None\<close>. The
  result is the height returned and the generator. In the orphan check the source
  divides by the line height: when that is \<open>+0\<close> the block height is 0, the branch is
  entered only with a negative available height, and JavaScript's quotient
  \<open>-Infinity\<close> is below 2, as is the quotient 0 that division by zero has here.
\<close>

definition drawWrappedText ::
  "pdf_lib \<Rightarrow> string option \<Rightarrow> real \<Rightarrow> real \<Rightarrow> text_options \<Rightarrow> generator
     \<Rightarrow> real \<times> generator" where
  "drawWrappedText L text' x maxWidth opts g =
     (case text' of
        None \<Rightarrow> (0, g)
      | Some t \<Rightarrow>
          if t = [] \<or> trim t = [] then (0, g)
          else
            (let words = split_ws t;
                 lines = breakLines (\<lambda>l. widthOfTextAtSize L (font opts) l (fontSize opts))
                           maxWidth words;
                 actualLineHeight = fontSize opts * lineHeight opts;
                 totalHeight = real (length lines) * actualLineHeight;
                 g1 =
                   (if currentY g - totalHeight < margins_bottom
                    then
                      (let availableHeight = currentY g - margins_bottom;
                           linesOnCurrentPage = \<lfloor>availableHeight / actualLineHeight\<rfloor>
                       in if linesOnCurrentPage < 2 then addNewPage g else g)
                    else g)
             in (totalHeight, foldl (drawTextLine L x maxWidth opts) g1 lines)))"

section \<open>Headings, fields, rules and space\<close>

definition drawHeading :: "string \<Rightarrow> nat \<Rightarrow> generator \<Rightarrow> generator" where
  "drawHeading text' level g =
     (let fontSize' = (if level = 1 then fonts_heading else fonts_subheading);
          spaceAbove = (if level = 1 then 20 else 15);
          spaceBelow = (if level = 1 then 10 else 8);
          g1 = snd (addPageIfNeeded (spaceAbove + fontSize' + spaceBelow) g);
          g2 = g1\<lparr>currentY := currentY g1 - spaceAbove\<rparr>;
          g3 = draw (DrawText text' margins_left (currentY g2 - fontSize') fontSize'
                       HelveticaBold Primary) g2
      in g3\<lparr>currentY := currentY g3 - (fontSize' + spaceBelow)\<rparr>)"

definition drawField :: "pdf_lib \<Rightarrow> string \<Rightarrow> string \<Rightarrow> generator \<Rightarrow> generator" where
  "drawField L label' value' g =
     (let labelWidth = widthOfTextAtSize L HelveticaBold (label' @ '': '') fonts_body;
          lineHeight' = fonts_body * (14 / 10);
          g1 = snd (addPageIfNeeded lineHeight' g);
          g2 = draw (DrawText (label' @ '': '') margins_left (currentY g1 - fonts_body)
                       fonts_body HelveticaBold Secondary) g1;
          valueX = margins_left + labelWidth;
          valueMaxWidth = contentWidth - labelWidth;
          valueWidth = widthOfTextAtSize L Helvetica value' fonts_body
      in if valueWidth \<le> valueMaxWidth
         then
           (let g3 = draw (DrawText value' valueX (currentY g2 - fonts_body) fonts_body
                             Helvetica TextColor) g2
            in g3\<lparr>currentY := currentY g3 - lineHeight'\<rparr>)
         else
           (let g3 = g2\<lparr>currentY := currentY g2 - lineHeight'\<rparr>
            in snd (drawWrappedText L (Some value') (margins_left + 20) (contentWidth - 20)
                      default_options g3)))"

definition drawLine :: "generator \<Rightarrow> generator" where
  "drawLine g =
     (let g1 = snd (addPageIfNeeded 15 g);
          g2 = g1\<lparr>currentY := currentY g1 - 5\<rparr>;
          g3 = draw (DrawLine margins_left (currentY g2) (PAGE_WIDTH - margins_right)
                       (currentY g2) (1 / 2) LightGray) g2
      in g3\<lparr>currentY := currentY g3 - 10\<rparr>)"

definition addSpace :: "real \<Rightarrow> generator \<Rightarrow> generator" where
  "addSpace space g = g\<lparr>currentY := currentY g - space\<rparr>"

section \<open>Images\<close>

text \<open>
  The size computed by \<^verbatim>\<open>drawImage\<close>, as \<open>(drawWidth, drawHeight)\<close>. The test
  \<^verbatim>\<open>maxHeight && ...\<close> treats an absent and a zero \<^verbatim>\<open>maxHeight\<close> alike. The source
  divides by the image's height and by the aspect ratio; both are non-zero for an
  image of positive size.
\<close>

definition drawImageSize :: "pdf_image \<Rightarrow> real \<Rightarrow> real option \<Rightarrow> real \<times> real" where
  "drawImageSize jpgImage maxWidth maxHeight =
     (let aspectRatio = width jpgImage / height jpgImage;
          drawWidth = maxWidth;
          drawHeight = drawWidth / aspectRatio
      in case maxHeight of
           None \<Rightarrow> (drawWidth, drawHeight)
         | Some mh \<Rightarrow>
             if mh \<noteq> 0 \<and> drawHeight > mh then (mh * aspectRatio, mh)
             else (drawWidth, drawHeight))"

text \<open>\<^verbatim>\<open>drawImage\<close>: \<open>Inl\<close> when \<^verbatim>\<open>embedJpg\<close> throws, else the height used and the
  generator.\<close>

definition drawImage ::
  "pdf_lib \<Rightarrow> bytes \<Rightarrow> real \<Rightarrow> real option \<Rightarrow> generator \<Rightarrow> error + real \<times> generator" where
  "drawImage L imageBytes maxWidth maxHeight g =
     (case embedJpg L imageBytes of
        None \<Rightarrow> Inl DecodeError
      | Some jpgImage \<Rightarrow>
          (let drawWidth = fst (drawImageSize jpgImage maxWidth maxHeight);
               drawHeight = snd (drawImageSize jpgImage maxWidth maxHeight);
               g1 = snd (addPageIfNeeded (drawHeight + 10) g);
               g2 = draw (DrawImage jpgImage margins_left (currentY g1 - drawHeight)
                            drawWidth drawHeight) g1
           in Inr (drawHeight + 10, g2\<lparr>currentY := currentY g2 - (drawHeight + 10)\<rparr>)))"

text \<open>The inner loop of \<^verbatim>\<open>drawImageGrid\<close> over the images of one row, from column
  \<open>j\<close> on.\<close>

fun drawRowImages ::
  "pdf_lib \<Rightarrow> real \<Rightarrow> real \<Rightarrow> real \<Rightarrow> nat \<Rightarrow> bytes list \<Rightarrow> generator \<Rightarrow> error + generator"
  where
  "drawRowImages L imageWidth imageHeight gap j [] g = Inr g"
| "drawRowImages L imageWidth imageHeight gap j (b # bs) g =
     (case embedJpg L b of
        None \<Rightarrow> Inl DecodeError
      | Some jpgImage \<Rightarrow>
          drawRowImages L imageWidth imageHeight gap (Suc j) bs
            (draw (DrawImage jpgImage (margins_left + real j * (imageWidth + gap))
                     (currentY g - imageHeight) imageWidth imageHeight) g))"

text \<open>The block that draws one row: reserve the row height, draw the images, move the
  cursor.\<close>

definition drawRow ::
  "pdf_lib \<Rightarrow> real \<Rightarrow> real \<Rightarrow> real \<Rightarrow> bytes list \<Rightarrow> generator \<Rightarrow> error + generator" where
  "drawRow L imageWidth imageHeight gap rowImages g =
     (let rowHeight = imageHeight + gap;
          g1 = snd (addPageIfNeeded rowHeight g)
      in case drawRowImages L imageWidth imageHeight gap 0 rowImages g1 of
           Inl e \<Rightarrow> Inl e
         | Inr g2 \<Rightarrow> Inr (g2\<lparr>currentY := currentY g2 - rowHeight\<rparr>))"

text \<open>
  The outer loop, over the images from index \<open>i\<close> on: \<open>col\<close> and \<open>rowImages\<close> are the
  loop's variables, and \<open>i = images.length - 1\<close> holds when no image follows.
\<close>

fun gridLoop ::
  "pdf_lib \<Rightarrow> nat \<Rightarrow> real \<Rightarrow> real \<Rightarrow> real \<Rightarrow> bytes list \<Rightarrow> nat \<Rightarrow> bytes list \<Rightarrow> generator
     \<Rightarrow> error + generator" where
  "gridLoop L columns gap imageWidth imageHeight [] col rowImages g = Inr g"
| "gridLoop L columns gap imageWidth imageHeight (img # rest) col rowImages g =
     (if Suc col = columns \<or> rest = []
      then
        (case drawRow L imageWidth imageHeight gap (rowImages @ [img]) g of
           Inl e \<Rightarrow> Inl e
         | Inr g' \<Rightarrow> gridLoop L columns gap imageWidth imageHeight rest 0 [] g')
      else gridLoop L columns gap imageWidth imageHeight rest (Suc col)
             (rowImages @ [img]) g)"

text \<open>
  The cell size of \<^verbatim>\<open>drawImageGrid\<close> (its constants \<^verbatim>\<open>imageWidth\<close> and
  \<^verbatim>\<open>imageHeight\<close>). With \<open>columns = 0\<close> the source divides by zero; the callers pass
  1 or 2.
\<close>

definition gridImageWidth :: "nat \<Rightarrow> real \<Rightarrow> real" where
  "gridImageWidth columns gap = (contentWidth - gap * (real columns - 1)) / real columns"

definition gridImageHeight :: "nat \<Rightarrow> real \<Rightarrow> real" where
  "gridImageHeight columns gap =
     gridImageWidth columns gap / (IMAGE_CONFIG_width / IMAGE_CONFIG_height)"

text \<open>\<^verbatim>\<open>drawImageGrid(images, columns, gap)\<close>.\<close>

definition drawImageGrid ::
  "pdf_lib \<Rightarrow> bytes list \<Rightarrow> nat \<Rightarrow> real \<Rightarrow> generator \<Rightarrow> error + generator" where
  "drawImageGrid L images columns gap g =
     (if length images = 0 then Inr g
      else
        (let imageWidth = gridImageWidth columns gap;
             imageHeight = gridImageHeight columns gap
         in gridLoop L columns gap imageWidth imageHeight images 0 [] g))"

section \<open>Header, title and distribution table\<close>

text \<open>
  The logo of \<^verbatim>\<open>drawOrgHeader\<close>: PNG first, then JPEG; every failure inside the
  \<^verbatim>\<open>try\<close> block is caught and only logged, and the generator is then as before.
  The divisions are by the logo's height and aspect ratio, non-zero for a logo of
  positive size.
\<close>

definition drawLogo :: "pdf_lib \<Rightarrow> bytes option \<Rightarrow> generator \<Rightarrow> generator" where
  "drawLogo L logoBytes g =
     (case logoBytes of
        None \<Rightarrow> g
      | Some b \<Rightarrow>
          (case (case embedPng L b of Some png \<Rightarrow> Some png | None \<Rightarrow> embedJpg L b) of
             None \<Rightarrow> g
           | Some logoImage \<Rightarrow>
               (let logoMaxHeight = 60;
                    logoMaxWidth = 150;
                    logoAspect = width logoImage / height logoImage;
                    logoWidth = logoMaxWidth;
                    logoHeight = logoWidth / logoAspect;
                    clamped = (logoHeight > logoMaxHeight);
                    logoHeight' = (if clamped then logoMaxHeight else logoHeight);
                    logoWidth' = (if clamped then logoHeight' * logoAspect else logoWidth)
                in draw (DrawImage logoImage margins_left (currentY g - logoHeight')
                           logoWidth' logoHeight') g)))"

definition drawOrgHeader :: "pdf_lib \<Rightarrow> bytes option \<Rightarrow> generator \<Rightarrow> generator" where
  "drawOrgHeader L logoBytes g =
     (let headerHeight = 80;
          g1 = drawLogo L logoBytes g;
          rightX = PAGE_WIDTH - margins_right;
          textY = currentY g1 - 12;
          nameWidth = widthOfTextAtSize L HelveticaBold ORG_CONFIG_name 11;
          g2 = draw (DrawText ORG_CONFIG_name (rightX - nameWidth) textY 11
                       HelveticaBold Primary) g1;
          st = foldl
                 (\<lambda>st line.
                    (draw (DrawText line (rightX - widthOfTextAtSize L Helvetica line 9)
                             (snd st) 9 Helvetica Secondary) (fst st),
                     snd st - 12))
                 (g2, textY - 14) ORG_CONFIG_address;
          webWidth = widthOfTextAtSize L Helvetica ORG_CONFIG_website 9;
          g3 = draw (DrawText ORG_CONFIG_website (rightX - webWidth) (snd st) 9
                       Helvetica Accent) (fst st)
      in drawLine (g3\<lparr>currentY := currentY g3 - headerHeight\<rparr>))"

definition drawTitle :: "pdf_lib \<Rightarrow> string \<Rightarrow> generator \<Rightarrow> generator" where
  "drawTitle L title g =
     (let g1 = addSpace 10 g;
          titleWidth = widthOfTextAtSize L HelveticaBold title fonts_title;
          centerX = (PAGE_WIDTH - titleWidth) / 2;
          g2 = draw (DrawText title centerX (currentY g1 - fonts_title) fonts_title
                       HelveticaBold Primary) g1
      in g2\<lparr>currentY := currentY g2 - (fonts_title + 20)\<rparr>)"

record category =
  label :: string
  percent :: real

text \<open>One round of the loop of \<^verbatim>\<open>drawDistributionTable\<close>; the state is \<open>(col, g)\<close>.\<close>

definition distributionStep :: "pdf_lib \<Rightarrow> nat \<times> generator \<Rightarrow> category \<Rightarrow> nat \<times> generator" where
  "distributionStep L st cat =
     (if percent cat = 0 then st
      else
        (let col = fst st; g = snd st;
             colWidth = contentWidth / 2;
             rowHeight = 20;
             x = margins_left + real col * colWidth;
             g1 = (if currentY g - rowHeight < margins_bottom then addNewPage g else g);
             g2 = draw (DrawText (label cat @ '': '' @ numberToString L (percent cat) @ ''%'')
                          (x + 10) (currentY g1 - 14) fonts_body Helvetica TextColor) g1;
             barWidth = (percent cat / 100) * (colWidth - 80);
             g3 = draw (DrawRectangle (x + 10) (currentY g2 - rowHeight + 2) barWidth 4
                          Primary) g2
         in if Suc col = 2 then (0, g3\<lparr>currentY := currentY g3 - rowHeight\<rparr>)
            else (Suc col, g3)))"

definition drawDistributionTable :: "pdf_lib \<Rightarrow> category list \<Rightarrow> generator \<Rightarrow> generator" where
  "drawDistributionTable L categories g =
     (let g1 = drawHeading ''Student Distribution'' 2 g;
          st = foldl (distributionStep L) (0, g1) categories;
          g2 = (if fst st \<noteq> 0 then (snd st)\<lparr>currentY := currentY (snd st) - 20\<rparr>
                else snd st)
      in addSpace 10 g2)"

section \<open>Activities and the whole report\<close>

text \<open>An activity as \<^verbatim>\<open>drawActivity\<close> reads it; a photo is the content of its blob.\<close>

record activity =
  date :: string
  location :: string
  participants :: string
  typeIndex :: nat
  medium :: string
  mediumOther :: string
  foreignCountry :: string
  foreignSchoolName :: string
  foreignSchoolAddress :: string
  description :: string
  impact :: string
  photos :: "bytes list option"

text \<open>A bold label of the body size at the left margin, followed by a step down.\<close>

definition drawLabel :: "string \<Rightarrow> real \<Rightarrow> generator \<Rightarrow> generator" where
  "drawLabel text' down g =
     (let g1 = draw (DrawText text' margins_left (currentY g - fonts_body) fonts_body
                       HelveticaBold Secondary) g
      in g1\<lparr>currentY := currentY g1 - down\<rparr>)"

text \<open>The extra fields of a virtual exchange activity.\<close>

definition drawExtraFields :: "pdf_lib \<Rightarrow> activity \<Rightarrow> generator \<Rightarrow> generator" where
  "drawExtraFields L a g =
     (if typeIndex a = 1
      then
        (let mediumDisplay =
               (if medium a = ''Other'' then ''Other: '' @ mediumOther a else medium a);
             g1 = drawField L ''Communication Medium'' mediumDisplay g;
             g2 = drawField L ''Foreign Country'' (foreignCountry a) g1;
             g3 = drawField L ''Foreign School'' (foreignSchoolName a) g2
         in drawField L ''School Address'' (foreignSchoolAddress a) g3)
      else g)"

text \<open>The photo block of \<^verbatim>\<open>drawActivity\<close>.\<close>

definition drawPhotos :: "pdf_lib \<Rightarrow> activity \<Rightarrow> generator \<Rightarrow> error + generator" where
  "drawPhotos L a g =
     (case photos a of
        None \<Rightarrow> Inr g
      | Some imageBytes \<Rightarrow>
          if length imageBytes > 0
          then
            (let g1 = drawLabel ''Activity Photos:'' (fonts_body * (3 / 2) + 5) g;
                 columns = (if length imageBytes \<le> 2 then 1 else 2)
             in drawImageGrid L imageBytes columns 10 g1)
          else Inr g)"

definition drawActivity :: "pdf_lib \<Rightarrow> activity \<Rightarrow> nat \<Rightarrow> generator \<Rightarrow> error + generator" where
  "drawActivity L a index g =
     (let g1 = addNewPage g;
          g2 = drawHeading (''Activity #'' @ numberToString L (real index)) 1 g1;
          g3 = drawField L ''Date'' (date a) g2;
          g4 = drawField L ''Location'' (location a) g3;
          g5 = drawField L ''Participants'' (participants a) g4;
          g6 = drawExtraFields L a g5;
          g7 = addSpace 10 g6;
          g8 = drawLabel ''Description:'' (fonts_body * (3 / 2)) g7;
          g9 = snd (drawWrappedText L (Some (description a)) (margins_left + 10)
                      (contentWidth - 10) default_options g8);
          g10 = addSpace 10 g9;
          g11 = drawLabel ''Estimated Impact:'' (fonts_body * (3 / 2)) g10;
          g12 = snd (drawWrappedText L (Some (impact a)) (margins_left + 10)
                       (contentWidth - 10) default_options g11);
          g13 = addSpace 15 g12
      in case drawPhotos L a g13 of
           Inl e \<Rightarrow> Inl e
         | Inr g14 \<Rightarrow> Inr (drawLine g14))"

text \<open>The loop of \<^verbatim>\<open>generate\<close> over the activities, from index \<open>i\<close> on.\<close>

fun drawActivities :: "pdf_lib \<Rightarrow> nat \<Rightarrow> activity list \<Rightarrow> generator \<Rightarrow> error + generator" where
  "drawActivities L i [] g = Inr g"
| "drawActivities L i (a # rest) g =
     (case drawActivity L a (i + 1) g of
        Inl e \<Rightarrow> Inl e
      | Inr g' \<Rightarrow> drawActivities L (Suc i) rest g')"

record report =
  schoolYear :: string
  instructorName :: string
  sevisId :: string
  schoolType :: string
  headerPhoto :: "bytes option"
  distribution :: "category list option"
  activities :: "activity list"

text \<open>The part of \<^verbatim>\<open>generate\<close> between the two header images and the activities.\<close>

definition drawGeneralInformation :: "pdf_lib \<Rightarrow> report \<Rightarrow> generator \<Rightarrow> generator" where
  "drawGeneralInformation L r g =
     (let g1 = addSpace 10 g;
          g2 = drawHeading ''General Information'' 2 g1;
          g3 = drawField L ''School Year'' (schoolYear r) g2;
          g4 = drawField L ''Instructor Name'' (instructorName r) g3;
          g5 = drawField L ''SEVIS ID'' (sevisId r) g4;
          g6 = drawField L ''School Type'' (schoolType r) g5;
          g7 = addSpace 15 g6
      in case distribution r of
           None \<Rightarrow> g7
         | Some categories \<Rightarrow> drawDistributionTable L categories g7)"

text \<open>
  \<^verbatim>\<open>generate(report, onProgress)\<close>. \<open>fetched\<close> is the banner that \<^verbatim>\<open>fetch\<close> delivered,
  \<open>None\<close> when the request failed or was not ok (the source catches that and goes on).
  The progress callback only reports and is left out. The result is the list of pages
  that \<^verbatim>\<open>pdfDoc.save()\<close> serialises, or \<open>Inl\<close> when the call rejects.
\<close>

definition generate :: "pdf_lib \<Rightarrow> bytes option \<Rightarrow> report \<Rightarrow> error + page list" where
  "generate L fetched r =
     (case (case fetched of
              None \<Rightarrow> Inr init
            | Some headerImageBytes \<Rightarrow>
                (case drawImage L headerImageBytes contentWidth (Some 150) init of
                   Inl e \<Rightarrow> Inl e
                 | Inr res \<Rightarrow> Inr (addSpace 10 (snd res)))) of
        Inl e \<Rightarrow> Inl e
      | Inr g1 \<Rightarrow>
          (let g2 = drawTitle L ''Cultural Activities Annual Report'' g1
           in case (case headerPhoto r of
                      None \<Rightarrow> Inr g2
                    | Some headerImageBytes \<Rightarrow>
                        (case drawImage L headerImageBytes contentWidth (Some 250) g2 of
                           Inl e \<Rightarrow> Inl e
                         | Inr res \<Rightarrow> Inr (snd res))) of
                Inl e \<Rightarrow> Inl e
              | Inr g3 \<Rightarrow>
                  (case drawActivities L 0 (activities r) (drawGeneralInformation L r g3) of
                     Inl e \<Rightarrow> Inl e
                   | Inr g4 \<Rightarrow> Inr (pages g4))))"

section \<open>The file name\<close>

text \<open>The class \<^verbatim>\<open>[a-zA-Z0-9-_]\<close>.\<close>

definition isFilenameChar :: "char \<Rightarrow> bool" where
  "isFilenameChar c \<longleftrightarrow>
     (let n = (of_char c :: nat)
      in (97 \<le> n \<and> n \<le> 122) \<or> (65 \<le> n \<and> n \<le> 90) \<or> (48 \<le> n \<and> n \<le> 57) \<or>
         c = CHR ''-'' \<or> c = CHR ''_'')"

text \<open>\<^verbatim>\<open>replace(/_+/g, '_')\<close>: every maximal run of underscores becomes one.\<close>

function collapseUnderscores :: "string \<Rightarrow> string" where
  "collapseUnderscores [] = []"
| "collapseUnderscores (c # cs) =
     (if c = CHR ''_'' then c # collapseUnderscores (dropWhile (\<lambda>d. d = CHR ''_'') cs)
      else c # collapseUnderscores cs)"
  by pat_completeness auto
termination
  by (relation "measure length") (auto simp: le_imp_less_Suc length_dropWhile_le)

definition sanitize :: "string \<Rightarrow> string" where
  "sanitize str =
     collapseUnderscores (map (\<lambda>c. if isFilenameChar c then c else CHR ''_'') str)"

text \<open>\<^verbatim>\<open>split\<close> never returns an empty array, so \<open>nameParts\<close> has a last element.\<close>

definition generateFilename :: "string \<Rightarrow> string \<Rightarrow> string" where
  "generateFilename schoolYear' instructorName' =
     (let nameParts = split_ws (trim instructorName');
          lastName = (if last nameParts \<noteq> [] then last nameParts else ''Unknown'');
          sanitizedYear = sanitize schoolYear';
          sanitizedName = sanitize lastName
      in ''Cultural_Activities_Report_'' @ sanitizedYear @ ''_'' @ sanitizedName @ ''.pdf'')"

section \<open>Observations on a document\<close>

text \<open>Everything drawn so far, in page order, and the cursor invariant.\<close>

definition content :: "generator \<Rightarrow> drawing list" where
  "content g = concat (pages g)"

definition cursor_ok :: "generator \<Rightarrow> bool" where
  "cursor_ok g \<longleftrightarrow> margins_bottom \<le> currentY g \<and> currentY g \<le> PAGE_HEIGHT - margins_top"


text \<open>The image, width and height of every \<^verbatim>\<open>drawImage\<close> call in a list of drawings.\<close>

fun drawnImages :: "drawing list \<Rightarrow> (pdf_image \<times> real \<times> real) list" where
  "drawnImages [] = []"
| "drawnImages (DrawImage i x y w h # ds) = (i, w, h) # drawnImages ds"
| "drawnImages (d # ds) = drawnImages ds"

text \<open>The text of every \<^verbatim>\<open>drawText\<close> call in a list of drawings.\<close>

fun drawnTexts :: "drawing list \<Rightarrow> string list" where
  "drawnTexts [] = []"
| "drawnTexts (DrawText s x y z f c # ds) = s # drawnTexts ds"
| "drawnTexts (d # ds) = drawnTexts ds"

text \<open>
  The partition that the specification describes for the grid: rows of \<open>n\<close> images,
  the last one possibly shorter.
\<close>

function chunks :: "nat \<Rightarrow> 'a list \<Rightarrow> 'a list list" where
  "chunks n xs = (if xs = [] \<or> n = 0 then [] else take n xs # chunks n (drop n xs))"
  by pat_completeness auto
termination
  by (relation "measure (\<lambda>(n, xs). length xs)") auto

text \<open>Drawing a list of rows one after the other, stopping at the first failure.\<close>

fun drawRows ::
  "pdf_lib \<Rightarrow> real \<Rightarrow> real \<Rightarrow> real \<Rightarrow> bytes list list \<Rightarrow> generator \<Rightarrow> error + generator"
  where
  "drawRows L imageWidth imageHeight gap [] g = Inr g"
| "drawRows L imageWidth imageHeight gap (row # rows) g =
     (case drawRow L imageWidth imageHeight gap row g of
        Inl e \<Rightarrow> Inl e
      | Inr g' \<Rightarrow> drawRows L imageWidth imageHeight gap rows g')"

text \<open>
  A stand-in for the external library, to run the definitions on concrete inputs: a
  character is half the font size wide, the two bytes \<open>[w, h]\<close> with positive \<open>w\<close>
  and \<open>h\<close> decode as a JPEG image of that size, and nothing decodes as PNG.
\<close>

definition exampleLib :: pdf_lib where
  "exampleLib =
     \<lparr>widthOfTextAtSize = (\<lambda>f s z. real (length s) * z / 2),
      embedJpg = (\<lambda>b. case b of
                         [w, h] \<Rightarrow> if 0 < w \<and> 0 < h
                                   then Some \<lparr>width = real w, height = real h\<rparr> else None
                       | _ \<Rightarrow> None),
      embedPng = (\<lambda>b. None),
      numberToString = (\<lambda>x. ''1'')\<rparr>"

text \<open>An activity with the given photos, and a report with the given activities.\<close>

definition exampleActivity :: "bytes list \<Rightarrow> activity" where
  "exampleActivity ps =
     \<lparr>date = ''2025-10-01'', location = ''Library'', participants = ''30 students'',
      typeIndex = 0, medium = [], mediumOther = [], foreignCountry = [],
      foreignSchoolName = [], foreignSchoolAddress = [],
      description = ''A talk about home'', impact = ''High'', photos = Some ps\<rparr>"

definition exampleReport :: "activity list \<Rightarrow> report" where
  "exampleReport as =
     \<lparr>schoolYear = ''2025-2026'', instructorName = ''Ana Smith'', sevisId = ''N0001'',
      schoolType = ''Public'', headerPhoto = None, distribution = None, activities = as\<rparr>"

section \<open>Basic facts\<close>

lemmas config_defs =
  PAGE_WIDTH_def PAGE_HEIGHT_def margins_top_def margins_bottom_def margins_left_def
  margins_right_def fonts_title_def fonts_heading_def fonts_subheading_def fonts_body_def
  IMAGE_CONFIG_width_def IMAGE_CONFIG_height_def contentWidth_def

lemma content_draw [simp]: "content (draw d g) = content g @ [d]"
  by (simp add: content_def pages_def draw_def)

lemma content_addNewPage [simp]: "content (addNewPage g) = content g"
  by (simp add: content_def pages_def addNewPage_def)

lemma content_currentY_update [simp]: "content (g\<lparr>currentY := y\<rparr>) = content g"
  by (simp add: content_def pages_def)

lemma content_addPageIfNeeded [simp]: "content (snd (addPageIfNeeded h g)) = content g"
  by (simp add: addPageIfNeeded_def)

lemma drawnTexts_append [simp]: "drawnTexts (xs @ ys) = drawnTexts xs @ drawnTexts ys"
  by (induction xs rule: drawnTexts.induct) simp_all

lemma drawnImages_append [simp]: "drawnImages (xs @ ys) = drawnImages xs @ drawnImages ys"
  by (induction xs rule: drawnImages.induct) simp_all

lemma dropWhile_all_iff: "(\<forall>x\<in>set (dropWhile P xs). P x) \<longleftrightarrow> (\<forall>x\<in>set xs. P x)"
  by (induction xs) auto

lemma trim_empty_iff: "trim t = [] \<longleftrightarrow> (\<forall>c\<in>set t. isWhiteSpace c)"
  by (simp add: trim_def dropWhile_all_iff)

section \<open>Line breaking\<close>

lemma breakStep_cases:
  "breakStep W m st word =
     (if snd st = [] then (fst st, word)
      else if W (snd st @ '' '' @ word) > m then (fst st @ [snd st], word)
      else (fst st, snd st @ '' '' @ word))"
  unfolding breakStep_def Let_def by (cases "snd st = []") simp_all

text \<open>An invariant of the loop, for any property \<open>P\<close> that holds of every word and of
  every line that is not too wide.\<close>

lemma breakStep_good:
  assumes "\<forall>l\<in>set (fst st). P l"
    and "snd st = [] \<or> P (snd st)"
    and "P word"
    and "\<And>l. W l \<le> m \<Longrightarrow> P l"
  shows "(\<forall>l\<in>set (fst (breakStep W m st word)). P l) \<and>
         (snd (breakStep W m st word) = [] \<or> P (snd (breakStep W m st word)))"
proof (cases "snd st = []")
  case True
  with assms(1,3) show ?thesis by (simp add: breakStep_cases)
next
  case False
  show ?thesis
  proof (cases "W (snd st @ '' '' @ word) > m")
    case True
    with False assms(1,2,3) show ?thesis by (simp add: breakStep_cases)
  next
    case f: False
    then have "P (snd st @ '' '' @ word)" by (intro assms(4)) simp
    with False f assms(1) show ?thesis by (simp add: breakStep_cases)
  qed
qed

lemma foldl_breakStep_good:
  assumes "\<forall>w\<in>set ws. P w"
    and "\<forall>l\<in>set (fst st). P l"
    and "snd st = [] \<or> P (snd st)"
    and "\<And>l. W l \<le> m \<Longrightarrow> P l"
  shows "(\<forall>l\<in>set (fst (foldl (breakStep W m) st ws)). P l) \<and>
         (snd (foldl (breakStep W m) st ws) = [] \<or> P (snd (foldl (breakStep W m) st ws)))"
  using assms(1,2,3)
proof (induction ws arbitrary: st)
  case Nil
  then show ?case by simp
next
  case (Cons w ws)
  have w: "P w" and ws: "\<forall>w\<in>set ws. P w" using Cons.prems(1) by simp_all
  have "(\<forall>l\<in>set (fst (breakStep W m st w)). P l) \<and>
        (snd (breakStep W m st w) = [] \<or> P (snd (breakStep W m st w)))"
    using Cons.prems(2) Cons.prems(3) w assms(4) by (rule breakStep_good)
  then show ?case using Cons.IH[OF ws, of "breakStep W m st w"] by simp
qed

lemma breakLines_good:
  assumes "l \<in> set (breakLines W m words)"
  shows "W l \<le> m \<or> l \<in> set words"
proof -
  let ?st = "foldl (breakStep W m) ([], []) words"
  let ?P = "\<lambda>l. W l \<le> m \<or> l \<in> set words"
  have g: "(\<forall>l\<in>set (fst ?st). ?P l) \<and> (snd ?st = [] \<or> ?P (snd ?st))"
    by (rule foldl_breakStep_good) simp_all
  have "l \<in> set (fst ?st) \<or> (snd ?st \<noteq> [] \<and> l = snd ?st)"
  proof (cases "snd ?st = []")
    case True
    with assms show ?thesis by (simp add: breakLines_def Let_def)
  next
    case False
    with assms show ?thesis by (simp add: breakLines_def Let_def) blast
  qed
  with g show ?thesis by blast
qed

section \<open>The lines that are drawn\<close>

lemma drawnTexts_drawTextLine:
  "drawnTexts (content (drawTextLine L x mw opts g line)) = drawnTexts (content g) @ [line]"
  by (simp add: drawTextLine_def Let_def)

lemma drawnTexts_foldl_drawTextLine:
  "drawnTexts (content (foldl (drawTextLine L x mw opts) g lines)) =
   drawnTexts (content g) @ lines"
  by (induction lines arbitrary: g) (simp_all add: drawnTexts_drawTextLine)

lemma drawnTexts_drawWrappedText:
  "drawnTexts (content (snd (drawWrappedText L text' x mw opts g))) =
   drawnTexts (content g) @
   (case text' of None \<Rightarrow> []
    | Some t \<Rightarrow> if trim t = [] then []
        else breakLines (\<lambda>l. widthOfTextAtSize L (font opts) l (fontSize opts)) mw (split_ws t))"
  by (auto simp: drawWrappedText_def Let_def drawnTexts_foldl_drawTextLine trim_def
      split: option.splits)

section \<open>Pages are only ever appended\<close>

text \<open>Whatever pages precede the current one stay as they are, for every operation.\<close>

lemma keeps_draw: "prefix P (previousPages g) \<Longrightarrow> prefix P (previousPages (draw d g))"
  by (simp add: draw_def)

lemma keeps_addNewPage:
  "prefix P (previousPages g) \<Longrightarrow> prefix P (previousPages (addNewPage g))"
  by (simp add: addNewPage_def)

lemma keeps_addPageIfNeeded:
  "prefix P (previousPages g) \<Longrightarrow> prefix P (previousPages (snd (addPageIfNeeded h g)))"
  by (simp add: addPageIfNeeded_def keeps_addNewPage)

lemma keeps_addSpace: "prefix P (previousPages g) \<Longrightarrow> prefix P (previousPages (addSpace s g))"
  by (simp add: addSpace_def)

lemma keeps_drawTextLine:
  "prefix P (previousPages g) \<Longrightarrow> prefix P (previousPages (drawTextLine L x mw opts g line))"
  by (simp add: drawTextLine_def Let_def keeps_draw keeps_addNewPage)

lemma keeps_foldl_drawTextLine:
  "prefix P (previousPages g) \<Longrightarrow>
   prefix P (previousPages (foldl (drawTextLine L x mw opts) g lines))"
  by (induction lines arbitrary: g) (simp_all add: keeps_drawTextLine)

lemma keeps_drawWrappedText:
  "prefix P (previousPages g) \<Longrightarrow>
   prefix P (previousPages (snd (drawWrappedText L text' x mw opts g)))"
  by (auto simp: drawWrappedText_def Let_def split: option.splits
      intro!: keeps_foldl_drawTextLine keeps_addNewPage)

lemma keeps_drawHeading:
  "prefix P (previousPages g) \<Longrightarrow> prefix P (previousPages (drawHeading t lvl g))"
  by (simp add: drawHeading_def Let_def keeps_draw keeps_addPageIfNeeded)

lemma keeps_drawField:
  "prefix P (previousPages g) \<Longrightarrow> prefix P (previousPages (drawField L l v g))"
  by (simp add: drawField_def Let_def keeps_draw keeps_addPageIfNeeded keeps_drawWrappedText)

lemma keeps_drawLine: "prefix P (previousPages g) \<Longrightarrow> prefix P (previousPages (drawLine g))"
  by (simp add: drawLine_def Let_def keeps_draw keeps_addPageIfNeeded)

lemma keeps_drawLabel:
  "prefix P (previousPages g) \<Longrightarrow> prefix P (previousPages (drawLabel t d g))"
  by (simp add: drawLabel_def Let_def keeps_draw)

lemma keeps_drawExtraFields:
  "prefix P (previousPages g) \<Longrightarrow> prefix P (previousPages (drawExtraFields L a g))"
  by (simp add: drawExtraFields_def Let_def keeps_drawField)

lemma keeps_drawRowImages:
  "drawRowImages L w h gap j row g = Inr g' \<Longrightarrow> prefix P (previousPages g) \<Longrightarrow>
   prefix P (previousPages g')"
  by (induction row arbitrary: j g) (auto split: option.splits dest: keeps_draw)

lemma keeps_drawRow:
  "drawRow L w h gap row g = Inr g' \<Longrightarrow> prefix P (previousPages g) \<Longrightarrow>
   prefix P (previousPages g')"
  by (auto simp: drawRow_def Let_def split: sum.splits
      dest!: keeps_drawRowImages[where P = P] intro: keeps_addPageIfNeeded)

lemma keeps_gridLoop:
  "gridLoop L c gap w h imgs col row g = Inr g' \<Longrightarrow> prefix P (previousPages g) \<Longrightarrow>
   prefix P (previousPages g')"
proof (induction imgs arbitrary: col row g)
  case Nil
  then show ?case by simp
next
  case (Cons img rest)
  show ?case
  proof (cases "Suc col = c \<or> rest = []")
    case True
    with Cons.prems(1) obtain g1 where
      r: "drawRow L w h gap (row @ [img]) g = Inr g1" and
      l: "gridLoop L c gap w h rest 0 [] g1 = Inr g'"
      by (auto split: sum.splits)
    from keeps_drawRow[OF r Cons.prems(2)] Cons.IH[OF l] show ?thesis by simp
  next
    case False
    with Cons.prems(1) have "gridLoop L c gap w h rest (Suc col) (row @ [img]) g = Inr g'"
      by simp
    from Cons.IH[OF this Cons.prems(2)] show ?thesis .
  qed
qed

lemma keeps_drawImageGrid:
  "drawImageGrid L imgs c gap g = Inr g' \<Longrightarrow> prefix P (previousPages g) \<Longrightarrow>
   prefix P (previousPages g')"
  by (auto simp: drawImageGrid_def Let_def split: if_splits dest: keeps_gridLoop)

lemma keeps_drawPhotos:
  "drawPhotos L a g = Inr g' \<Longrightarrow> prefix P (previousPages g) \<Longrightarrow>
   prefix P (previousPages g')"
  by (auto simp: drawPhotos_def Let_def split: option.splits if_splits
      dest!: keeps_drawImageGrid[where P = P] intro: keeps_drawLabel)


section \<open>The partition into rows\<close>

declare chunks.simps [simp del]

lemma chunks_Nil [simp]: "chunks n [] = []"
  by (subst chunks.simps) simp

lemma chunks_step: "xs \<noteq> [] \<Longrightarrow> 0 < n \<Longrightarrow> chunks n xs = take n xs # chunks n (drop n xs)"
  by (subst chunks.simps) simp

lemma chunks_short: "xs \<noteq> [] \<Longrightarrow> 0 < n \<Longrightarrow> length xs \<le> n \<Longrightarrow> chunks n xs = [xs]"
  by (simp add: chunks_step)

lemma chunks_full:
  "length r = n \<Longrightarrow> 0 < n \<Longrightarrow> chunks n (r @ xs) = r # chunks n xs"
proof -
  assume "length r = n" and "0 < n"
  then have "r @ xs \<noteq> []" by auto
  from chunks_step[OF this \<open>0 < n\<close>] \<open>length r = n\<close> show ?thesis by simp
qed

lemma concat_chunks: "0 < n \<Longrightarrow> concat (chunks n xs) = xs"
proof (induction n xs rule: chunks.induct)
  case (1 n xs)
  then show ?case by (cases "xs = []") (simp_all add: chunks_step)
qed

lemma chunks_row_length:
  "0 < n \<Longrightarrow> r \<in> set (chunks n xs) \<Longrightarrow> 0 < length r \<and> length r \<le> n"
proof (induction n xs rule: chunks.induct)
  case (1 n xs)
  then show ?case by (cases "xs = []") (auto simp: chunks_step)
qed

lemma chunks_butlast_full:
  "0 < n \<Longrightarrow> r \<in> set (butlast (chunks n xs)) \<Longrightarrow> length r = n"
proof (induction n xs rule: chunks.induct)
  case (1 n xs)
  show ?case
  proof (cases "xs = []")
    case True
    with 1 show ?thesis by simp
  next
    case False
    show ?thesis
    proof (cases "drop n xs = []")
      case True
      with False 1 show ?thesis by (simp add: chunks_step)
    next
      case d: False
      then have "chunks n (drop n xs) \<noteq> []" using 1(2) by (simp add: chunks_step)
      with 1 False d show ?thesis by (auto simp: chunks_step)
    qed
  qed
qed


lemma gridLoop_chunks:
  "imgs \<noteq> [] \<Longrightarrow> length row = col \<Longrightarrow> col < c \<Longrightarrow>
   gridLoop L c gap w h imgs col row g = drawRows L w h gap (chunks c (row @ imgs)) g"
proof (induction imgs arbitrary: col row g)
  case Nil
  then show ?case by simp
next
  case (Cons img rest)
  show ?case
  proof (cases "Suc col = c")
    case True
    then have ch: "chunks c (row @ img # rest) = (row @ [img]) # chunks c rest"
      using chunks_full[of "row @ [img]" c rest] Cons.prems by simp
    show ?thesis
    proof (cases "rest = []")
      case True
      with ch \<open>Suc col = c\<close> show ?thesis by (simp split: sum.splits)
    next
      case False
      have "gridLoop L c gap w h rest 0 [] g' = drawRows L w h gap (chunks c rest) g'" for g'
        using Cons.IH[of "[]" 0 g'] False Cons.prems by simp
      with ch \<open>Suc col = c\<close> show ?thesis by (simp split: sum.splits)
    qed
  next
    case nf: False
    show ?thesis
    proof (cases "rest = []")
      case True
      then have "chunks c (row @ img # rest) = [row @ [img]]"
        using chunks_short[of "row @ [img]" c] Cons.prems by simp
      with True nf show ?thesis by (simp split: sum.splits)
    next
      case False
      have "gridLoop L c gap w h rest (Suc col) (row @ [img]) g =
            drawRows L w h gap (chunks c ((row @ [img]) @ rest)) g"
        using Cons.IH[of "row @ [img]" "Suc col" g] False Cons.prems nf by simp
      with False nf show ?thesis by simp
    qed
  qed
qed

lemma drawImageGrid_rows:
  assumes "0 < c"
  shows "drawImageGrid L imgs c gap g =
         drawRows L (gridImageWidth c gap) (gridImageHeight c gap) gap (chunks c imgs) g"
proof (cases "imgs = []")
  case True
  then show ?thesis by (simp add: drawImageGrid_def)
next
  case False
  from gridLoop_chunks[OF False, of "[]" 0 c] assms False show ?thesis
    by (simp add: drawImageGrid_def Let_def)
qed

section \<open>What a row draws\<close>

lemma drawRowImages_page:
  "drawRowImages L w h gap j row g = Inr g' \<Longrightarrow>
   previousPages g' = previousPages g \<and> currentY g' = currentY g \<and>
   (\<exists>ds. currentPage g' = currentPage g @ ds \<and> length ds = length row \<and>
         map Some (drawnImages ds) = map (\<lambda>b. map_option (\<lambda>i. (i, w, h)) (embedJpg L b)) row)"
proof (induction row arbitrary: j g)
  case Nil
  then show ?case by simp
next
  case (Cons b bs)
  from Cons.prems obtain i where
    i: "embedJpg L b = Some i" and
    r: "drawRowImages L w h gap (Suc j) bs
          (draw (DrawImage i (margins_left + real j * (w + gap)) (currentY g - h) w h) g) = Inr g'"
    by (auto split: option.splits)
  from Cons.IH[OF r] obtain ds where
    "previousPages g' = previousPages g" "currentY g' = currentY g"
    "currentPage g' =
       (currentPage g @ [DrawImage i (margins_left + real j * (w + gap)) (currentY g - h) w h]) @ ds"
    "length ds = length bs"
    "map Some (drawnImages ds) = map (\<lambda>b. map_option (\<lambda>i. (i, w, h)) (embedJpg L b)) bs"
    by (auto simp: draw_def)
  then show ?case using i
    by (intro conjI exI[of _ "DrawImage i (margins_left + real j * (w + gap)) (currentY g - h) w h # ds"])
       simp_all
qed

lemma drawRow_page:
  assumes "drawRow L w h gap row g = Inr g'"
  shows "previousPages g' = previousPages (snd (addPageIfNeeded (h + gap) g)) \<and>
         currentY g' = currentY (snd (addPageIfNeeded (h + gap) g)) - (h + gap) \<and>
         (\<exists>ds. currentPage g' = currentPage (snd (addPageIfNeeded (h + gap) g)) @ ds \<and>
               length ds = length row \<and>
               map Some (drawnImages ds) =
               map (\<lambda>b. map_option (\<lambda>i. (i, w, h)) (embedJpg L b)) row)"
proof -
  from assms obtain g2 where
    r: "drawRowImages L w h gap 0 row (snd (addPageIfNeeded (h + gap) g)) = Inr g2" and
    g': "g' = g2\<lparr>currentY := currentY g2 - (h + gap)\<rparr>"
    by (auto simp: drawRow_def Let_def split: sum.splits)
  from drawRowImages_page[OF r] show ?thesis by (simp add: g')
qed

lemma content_split: "content g = concat (previousPages g) @ currentPage g"
  by (simp add: content_def pages_def)

lemma drawRow_content:
  assumes "drawRow L w h gap row g = Inr g'"
  shows "map Some (drawnImages (content g')) =
         map Some (drawnImages (content g)) @
         map (\<lambda>b. map_option (\<lambda>i. (i, w, h)) (embedJpg L b)) row"
proof -
  from drawRow_page[OF assms] obtain ds where
    p: "previousPages g' = previousPages (snd (addPageIfNeeded (h + gap) g))" and
    c: "currentPage g' = currentPage (snd (addPageIfNeeded (h + gap) g)) @ ds" and
    d: "map Some (drawnImages ds) = map (\<lambda>b. map_option (\<lambda>i. (i, w, h)) (embedJpg L b)) row"
    by blast
  from p c have "content g' = content (snd (addPageIfNeeded (h + gap) g)) @ ds"
    by (simp add: content_split)
  with d show ?thesis by simp
qed

lemma drawRows_content:
  "drawRows L w h gap rows g = Inr g' \<Longrightarrow>
   map Some (drawnImages (content g')) =
   map Some (drawnImages (content g)) @
   map (\<lambda>b. map_option (\<lambda>i. (i, w, h)) (embedJpg L b)) (concat rows)"
proof (induction rows arbitrary: g)
  case Nil
  then show ?case by simp
next
  case (Cons row rows)
  from Cons.prems obtain g1 where
    r: "drawRow L w h gap row g = Inr g1" and rs: "drawRows L w h gap rows g1 = Inr g'"
    by (auto split: sum.splits)
  from Cons.IH[OF rs] drawRow_content[OF r] show ?case by simp
qed

lemma drawImageGrid_content:
  assumes "0 < c" and "drawImageGrid L imgs c gap g = Inr g'"
  shows "map Some (drawnImages (content g')) =
         map Some (drawnImages (content g)) @
         map (\<lambda>b. map_option (\<lambda>i. (i, gridImageWidth c gap, gridImageHeight c gap))
                    (embedJpg L b)) imgs"
proof -
  from assms have
    "drawRows L (gridImageWidth c gap) (gridImageHeight c gap) gap (chunks c imgs) g = Inr g'"
    by (simp add: drawImageGrid_rows)
  from drawRows_content[OF this] assms(1) show ?thesis by (simp add: concat_chunks)
qed

section \<open>Sanitizing a file name\<close>

lemma collapseUnderscores_Nil_iff [simp]: "collapseUnderscores s = [] \<longleftrightarrow> s = []"
  by (cases s) simp_all

lemma hd_collapseUnderscores: "s \<noteq> [] \<Longrightarrow> hd (collapseUnderscores s) = hd s"
  by (cases s) simp_all

lemma set_collapseUnderscores: "set (collapseUnderscores s) \<subseteq> set s"
proof (induction s rule: collapseUnderscores.induct)
  case 1
  then show ?case by simp
next
  case (2 c cs)
  show ?case
  proof (cases "c = CHR ''_''")
    case True
    with 2 have "set (collapseUnderscores (dropWhile (\<lambda>d. d = CHR ''_'') cs))
                 \<subseteq> set (dropWhile (\<lambda>d. d = CHR ''_'') cs)" by simp
    also have "\<dots> \<subseteq> set cs" by (auto dest: set_dropWhileD)
    finally show ?thesis using True by auto
  next
    case False
    with 2 show ?thesis by auto
  qed
qed

lemma dropWhile_collapseUnderscores:
  assumes "s = [] \<or> hd s \<noteq> CHR ''_''"
  shows "dropWhile (\<lambda>d. d = CHR ''_'') (collapseUnderscores s) = collapseUnderscores s"
proof (cases s)
  case Nil
  then show ?thesis by simp
next
  case (Cons c cs)
  with assms have "c \<noteq> CHR ''_''" by simp
  with Cons show ?thesis by simp
qed

lemma collapseUnderscores_idem:
  "collapseUnderscores (collapseUnderscores s) = collapseUnderscores s"
proof (induction s rule: collapseUnderscores.induct)
  case 1
  then show ?case by simp
next
  case (2 c cs)
  show ?case
  proof (cases "c = CHR ''_''")
    case True
    let ?r = "dropWhile (\<lambda>d. d = CHR ''_'') cs"
    have "?r = [] \<or> hd ?r \<noteq> CHR ''_''"
      using hd_dropWhile[of "\<lambda>d. d = CHR ''_''" cs] by blast
    then have "dropWhile (\<lambda>d. d = CHR ''_'') (collapseUnderscores ?r) = collapseUnderscores ?r"
      by (rule dropWhile_collapseUnderscores)
    with True 2 show ?thesis by simp
  next
    case False
    with 2 show ?thesis by simp
  qed
qed

lemma sanitize_chars: "c \<in> set (sanitize s) \<Longrightarrow> isFilenameChar c"
proof -
  assume "c \<in> set (sanitize s)"
  then have "c \<in> set (map (\<lambda>c. if isFilenameChar c then c else CHR ''_'') s)"
    using set_collapseUnderscores unfolding sanitize_def by blast
  moreover have "isFilenameChar CHR ''_''" by (simp add: isFilenameChar_def)
  ultimately show ?thesis by auto
qed

lemma sanitize_idem: "sanitize (sanitize s) = sanitize s"
proof -
  have "map (\<lambda>c. if isFilenameChar c then c else CHR ''_'') (sanitize s) = sanitize s"
    by (rule map_idI) (simp add: sanitize_chars)
  then have "sanitize (sanitize s) = collapseUnderscores (sanitize s)"
    by (simp add: sanitize_def[of "sanitize s"])
  then show ?thesis by (simp add: sanitize_def[of s] collapseUnderscores_idem)
qed

lemma filename_example:
  "generateFilename ''2025-2026'' ''O'Brien Smith'' =
   ''Cultural_Activities_Report_2025-2026_Smith.pdf''"
  by code_simp

lemma splitWhiteSpace_nonempty: "splitWhiteSpace cur s \<noteq> []"
  by (induction cur s rule: splitWhiteSpace.induct) simp_all

section \<open>Failing decoders\<close>

lemma error_is_DecodeError: "(e :: error) = DecodeError"
  by (cases e) simp

lemma bind_failsI:
  assumes "\<And>x. m = Inr x \<Longrightarrow> f x = Inl DecodeError"
  shows "(case m of Inl e \<Rightarrow> Inl e | Inr x \<Rightarrow> f x) = Inl DecodeError"
proof (cases m)
  case (Inl e)
  then show ?thesis by (simp add: error_is_DecodeError[of e])
next
  case (Inr x)
  with assms show ?thesis by simp
qed

lemma drawRowImages_fails:
  "\<exists>b\<in>set row. embedJpg L b = None \<Longrightarrow> drawRowImages L w h gap j row g = Inl DecodeError"
  by (induction row arbitrary: j g) (auto split: option.splits)

lemma drawRow_fails:
  "\<exists>b\<in>set row. embedJpg L b = None \<Longrightarrow> drawRow L w h gap row g = Inl DecodeError"
  by (simp add: drawRow_def Let_def drawRowImages_fails)

lemma gridLoop_fails:
  "imgs \<noteq> [] \<Longrightarrow> \<exists>b\<in>set (row @ imgs). embedJpg L b = None \<Longrightarrow>
   gridLoop L c gap w h imgs col row g = Inl DecodeError"
proof (induction imgs arbitrary: col row g)
  case Nil
  then show ?case by simp
next
  case (Cons img rest)
  show ?case
  proof (cases "Suc col = c \<or> rest = []")
    case True
    show ?thesis
    proof (cases "\<exists>b\<in>set (row @ [img]). embedJpg L b = None")
      case True
      then have "drawRow L w h gap (row @ [img]) g = Inl DecodeError"
        by (rule drawRow_fails)
      with \<open>Suc col = c \<or> rest = []\<close> show ?thesis by simp
    next
      case False
      with Cons.prems(2) have r: "rest \<noteq> []" "\<exists>b\<in>set ([] @ rest). embedJpg L b = None"
        by auto
      have "(case drawRow L w h gap (row @ [img]) g of
               Inl e \<Rightarrow> Inl e
             | Inr g' \<Rightarrow> gridLoop L c gap w h rest 0 [] g') = Inl DecodeError"
        by (rule bind_failsI) (rule Cons.IH[OF r])
      with True show ?thesis by simp
    qed
  next
    case False
    then have "rest \<noteq> []" by simp
    moreover have "\<exists>b\<in>set ((row @ [img]) @ rest). embedJpg L b = None"
      using Cons.prems(2) by simp
    ultimately have "gridLoop L c gap w h rest (Suc col) (row @ [img]) g = Inl DecodeError"
      by (rule Cons.IH)
    with False show ?thesis by simp
  qed
qed

lemma drawImageGrid_fails:
  "\<exists>b\<in>set imgs. embedJpg L b = None \<Longrightarrow> drawImageGrid L imgs c gap g = Inl DecodeError"
  using gridLoop_fails[of imgs "[]" L c gap _ _ 0 g]
  by (auto simp: drawImageGrid_def Let_def)

lemma drawImage_fails:
  "embedJpg L b = None \<Longrightarrow> drawImage L b mw mh g = Inl DecodeError"
  by (simp add: drawImage_def)

lemma drawPhotos_fails:
  "photos a = Some ps \<Longrightarrow> \<exists>b\<in>set ps. embedJpg L b = None \<Longrightarrow>
   drawPhotos L a g = Inl DecodeError"
  by (auto simp: drawPhotos_def Let_def drawImageGrid_fails)

lemma drawActivity_fails:
  "photos a = Some ps \<Longrightarrow> \<exists>b\<in>set ps. embedJpg L b = None \<Longrightarrow>
   drawActivity L a i g = Inl DecodeError"
  by (simp add: drawActivity_def Let_def drawPhotos_fails)

lemma drawActivities_fails:
  "\<exists>a\<in>set as. \<exists>ps. photos a = Some ps \<and> (\<exists>b\<in>set ps. embedJpg L b = None) \<Longrightarrow>
   drawActivities L i as g = Inl DecodeError"
proof (induction as arbitrary: i g)
  case Nil
  then show ?case by simp
next
  case (Cons a as)
  show ?case
  proof (cases "drawActivity L a (i + 1) g")
    case (Inl e)
    then show ?thesis by (simp add: error_is_DecodeError[of e])
  next
    case (Inr g1)
    have "\<not> (\<exists>ps. photos a = Some ps \<and> (\<exists>b\<in>set ps. embedJpg L b = None))"
    proof
      assume "\<exists>ps. photos a = Some ps \<and> (\<exists>b\<in>set ps. embedJpg L b = None)"
      then obtain ps where "photos a = Some ps" "\<exists>b\<in>set ps. embedJpg L b = None"
        by blast
      then have "drawActivity L a (i + 1) g = Inl DecodeError" by (rule drawActivity_fails)
      with Inr show False by simp
    qed
    with Cons.prems have
      "\<exists>a\<in>set as. \<exists>ps. photos a = Some ps \<and> (\<exists>b\<in>set ps. embedJpg L b = None)"
      by auto
    from Cons.IH[OF this] Inr show ?thesis by simp
  qed
qed

lemma generate_fails_activity:
  assumes "\<exists>a\<in>set (activities r). \<exists>ps. photos a = Some ps \<and> (\<exists>b\<in>set ps. embedJpg L b = None)"
  shows "generate L fetched r = Inl DecodeError"
  unfolding generate_def Let_def
  by (rule bind_failsI)+ (simp add: drawActivities_fails[OF assms])

lemma generate_fails_banner:
  "fetched = Some b \<Longrightarrow> embedJpg L b = None \<Longrightarrow> generate L fetched r = Inl DecodeError"
  by (simp add: generate_def drawImage_fails)

lemma generate_fails_headerPhoto:
  assumes "headerPhoto r = Some b" and "embedJpg L b = None"
  shows "generate L fetched r = Inl DecodeError"
  unfolding generate_def Let_def
  by (rule bind_failsI) (simp add: assms drawImage_fails)

lemma drawLogo_fallback:
  "embedPng L b = None \<Longrightarrow> embedJpg L b = None \<Longrightarrow> drawLogo L (Some b) g = g"
  by (simp add: drawLogo_def)

lemma drawLogo_jpeg:
  "embedPng L b = None \<Longrightarrow> embedJpg L b = Some j \<Longrightarrow>
   \<exists>w h. content (drawLogo L (Some b) g) = content g @ [DrawImage j margins_left (currentY g - h) w h]"
  by (simp add: drawLogo_def Let_def)

section \<open>The cursor\<close>


lemma reserve_ok:
  assumes "0 \<le> h" and "h \<le> PAGE_HEIGHT - margins_top - margins_bottom"
    and "currentY g \<le> PAGE_HEIGHT - margins_top"
  shows "cursor_ok ((snd (addPageIfNeeded h g))\<lparr>currentY := currentY (snd (addPageIfNeeded h g)) - h\<rparr>)"
  using assms by (simp add: cursor_ok_def addPageIfNeeded_def addNewPage_def)

lemma currentY_draw [simp]: "currentY (draw d g) = currentY g"
  by (simp add: draw_def)

lemma cursor_ok_currentY:
  "currentY g' = currentY g \<Longrightarrow> cursor_ok g' = cursor_ok g"
  by (simp add: cursor_ok_def)






lemma default_lineHeight:
  "fontSize default_options * lineHeight default_options = 13"
  by (simp add: default_options_def config_defs)


lemma currentY_drawRowImages:
  "drawRowImages L w h gap j row g = Inr g' \<Longrightarrow> currentY g' = currentY g"
  by (induction row arbitrary: j g) (auto split: option.splits)

lemma cursor_ok_drawRow:
  assumes "drawRow L w h gap row g = Inr g'"
    and "0 \<le> h + gap" and "h + gap \<le> PAGE_HEIGHT - margins_top - margins_bottom"
    and "currentY g \<le> PAGE_HEIGHT - margins_top"
  shows "cursor_ok g'"
proof -
  let ?g1 = "snd (addPageIfNeeded (h + gap) g)"
  from assms(1) obtain g2 where
    r: "drawRowImages L w h gap 0 row ?g1 = Inr g2" and
    g': "g' = g2\<lparr>currentY := currentY g2 - (h + gap)\<rparr>"
    by (auto simp: drawRow_def Let_def split: sum.splits)
  have "cursor_ok (?g1\<lparr>currentY := currentY ?g1 - (h + gap)\<rparr>)"
    using assms(2,3,4) by (rule reserve_ok)
  with currentY_drawRowImages[OF r] g' show ?thesis by (simp add: cursor_ok_def)
qed

lemma cursor_ok_gridLoop:
  assumes "0 \<le> h + gap" and "h + gap \<le> PAGE_HEIGHT - margins_top - margins_bottom"
  shows "gridLoop L c gap w h imgs col row g = Inr g' \<Longrightarrow> cursor_ok g \<Longrightarrow> cursor_ok g'"
proof (induction imgs arbitrary: col row g)
  case Nil
  then show ?case by simp
next
  case (Cons img rest)
  show ?case
  proof (cases "Suc col = c \<or> rest = []")
    case True
    with Cons.prems(1) obtain g1 where
      r: "drawRow L w h gap (row @ [img]) g = Inr g1" and
      l: "gridLoop L c gap w h rest 0 [] g1 = Inr g'"
      by (auto split: sum.splits)
    from Cons.prems(2) have "currentY g \<le> PAGE_HEIGHT - margins_top"
      by (simp add: cursor_ok_def)
    with r assms have "cursor_ok g1" by (rule cursor_ok_drawRow)
    with l show ?thesis by (rule Cons.IH)
  next
    case False
    with Cons.prems(1) have "gridLoop L c gap w h rest (Suc col) (row @ [img]) g = Inr g'"
      by simp
    from Cons.IH[OF this Cons.prems(2)] show ?thesis .
  qed
qed

lemma cursor_ok_drawImageGrid:
  assumes "drawImageGrid L imgs c gap g = Inr g'"
    and "0 \<le> gridImageHeight c gap + gap"
    and "gridImageHeight c gap + gap \<le> PAGE_HEIGHT - margins_top - margins_bottom"
    and "cursor_ok g"
  shows "cursor_ok g'"
proof (cases "imgs = []")
  case True
  with assms(1,4) show ?thesis by (simp add: drawImageGrid_def)
next
  case False
  with assms(1) have "gridLoop L c gap (gridImageWidth c gap) (gridImageHeight c gap) imgs 0 [] g
                      = Inr g'"
    by (simp add: drawImageGrid_def Let_def)
  from cursor_ok_gridLoop[OF assms(2,3) this assms(4)] show ?thesis .
qed


section \<open>The pagination primitive\<close>

text \<open>
  Claim C4. \<^verbatim>\<open>addPageIfNeeded(height)\<close> returns true exactly when
  \<open>cursor - height < marginBottom\<close>. In that case one empty page is appended, it is the
  current page, and the cursor is \<open>pageHeight - topMargin\<close>; otherwise the generator
  (cursor and pages) is unchanged.
\<close>

theorem addPageIfNeeded_correct:
  "fst (addPageIfNeeded h g) = (currentY g - h < margins_bottom) \<and>
   (if currentY g - h < margins_bottom
    then pages (snd (addPageIfNeeded h g)) = pages g @ [[]] \<and>
         currentPage (snd (addPageIfNeeded h g)) = [] \<and>
         currentY (snd (addPageIfNeeded h g)) = PAGE_HEIGHT - margins_top
    else snd (addPageIfNeeded h g) = g)"
  by (simp add: addPageIfNeeded_def addNewPage_def pages_def)

section \<open>Blank text\<close>

text \<open>
  Claim C10. For every position, width and style, \<^verbatim>\<open>drawWrappedText\<close> called with a
  text that is absent, empty or made of white space only returns 0 and leaves the
  generator as it was, wherever the cursor stands: nothing is drawn, the cursor does
  not move, no page is added.
\<close>

theorem drawWrappedText_blank:
  assumes "case text' of None \<Rightarrow> True | Some t \<Rightarrow> \<forall>c\<in>set t. isWhiteSpace c"
  shows "drawWrappedText L text' x maxWidth opts g = (0, g)"
  using assms by (auto simp: drawWrappedText_def trim_empty_iff split: option.splits)

text \<open>A text of a space, a tab and a line feed, and an absent text, with the cursor one
  point above the bottom margin.\<close>

theorem drawWrappedText_blank_witness:
  "drawWrappedText exampleLib (Some [CHR '' '', CHR 0x09, CHR 0x0A]) 60 100 default_options
     (init\<lparr>currentY := 51\<rparr>) = (0, init\<lparr>currentY := 51\<rparr>) \<and>
   drawWrappedText exampleLib None 60 100 default_options (init\<lparr>currentY := 51\<rparr>) =
     (0, init\<lparr>currentY := 51\<rparr>)"
  using drawWrappedText_blank[of "Some [CHR '' '', CHR 0x09, CHR 0x0A]" exampleLib 60 100
      default_options "init\<lparr>currentY := 51\<rparr>"]
    drawWrappedText_blank[of None exampleLib 60 100 default_options "init\<lparr>currentY := 51\<rparr>"]
  by (simp add: isWhiteSpace_def)

section \<open>The sanitized file name\<close>

text \<open>
  Claim C6. Sanitizing (every character outside \<^verbatim>\<open>[A-Za-z0-9-_]\<close> becomes an
  underscore, then runs of underscores collapse) is idempotent, and
  \<^verbatim>\<open>generateFilename("2025-2026", "O'Brien Smith")\<close> is
  \<^verbatim>\<open>Cultural_Activities_Report_2025-2026_Smith.pdf\<close>: only the last token of the name
  is used.
\<close>

theorem sanitize_idempotent:
  "sanitize (sanitize s) = sanitize s \<and>
   generateFilename ''2025-2026'' ''O'Brien Smith'' =
     ''Cultural_Activities_Report_2025-2026_Smith.pdf''"
  by (simp add: sanitize_idem filename_example)

section \<open>The width of wrapped lines\<close>

text \<open>
  Claim C2. The texts that \<^verbatim>\<open>drawWrappedText\<close> draws are added after what was drawn
  before, and each of these lines is either not wider than \<open>maxWidth\<close> or is one single
  word of the text (a word wider than \<open>maxWidth\<close> stands alone and whole). In the loop, a
  word that would make the non-empty current line too wide commits that line and starts
  the next one; otherwise it is appended after a space.
\<close>

theorem drawWrappedText_line_widths:
  assumes "drawWrappedText L text' x maxWidth opts g = (h, g')"
  shows "(\<exists>lines. drawnTexts (content g') = drawnTexts (content g) @ lines \<and>
            (\<forall>line\<in>set lines.
               widthOfTextAtSize L (font opts) line (fontSize opts) \<le> maxWidth \<or>
               (\<exists>t. text' = Some t \<and> line \<in> set (split_ws t)))) \<and>
         (\<forall>lines cur word.
            cur \<noteq> [] \<longrightarrow>
            breakStep (\<lambda>l. widthOfTextAtSize L (font opts) l (fontSize opts)) maxWidth
              (lines, cur) word =
              (if widthOfTextAtSize L (font opts) (cur @ '' '' @ word) (fontSize opts) > maxWidth
               then (lines @ [cur], word)
               else (lines, cur @ '' '' @ word)))"
proof -
  have g': "g' = snd (drawWrappedText L text' x maxWidth opts g)" using assms by simp
  let ?W = "\<lambda>l. widthOfTextAtSize L (font opts) l (fontSize opts)"
  let ?lines = "case text' of None \<Rightarrow> []
    | Some t \<Rightarrow> if trim t = [] then [] else breakLines ?W maxWidth (split_ws t)"
  have 1: "drawnTexts (content g') = drawnTexts (content g) @ ?lines"
    unfolding g' by (rule drawnTexts_drawWrappedText)
  have 2: "?W line \<le> maxWidth \<or> (\<exists>t. text' = Some t \<and> line \<in> set (split_ws t))"
    if "line \<in> set ?lines" for line
  proof (cases text')
    case None
    with that show ?thesis by simp
  next
    case (Some t)
    with that have "line \<in> set (breakLines ?W maxWidth (split_ws t))"
      by (simp split: if_splits)
    from breakLines_good[OF this] Some show ?thesis by blast
  qed
  from 1 2 have "\<exists>lines. drawnTexts (content g') = drawnTexts (content g) @ lines \<and>
            (\<forall>line\<in>set lines. ?W line \<le> maxWidth \<or>
               (\<exists>t. text' = Some t \<and> line \<in> set (split_ws t)))"
    by blast
  then show ?thesis by (simp add: breakStep_cases)
qed

text \<open>Four words at five points a character and a width of 25: two words share the
  first line, the too wide third word is alone on the second.\<close>

theorem drawWrappedText_line_widths_witness:
  "drawnTexts (content (snd (drawWrappedText exampleLib (Some ''ab cd efghijk l'') 50 25
      default_options init))) = [''ab cd'', ''efghijk'', ''l''] \<and>
   widthOfTextAtSize exampleLib (font default_options) ''ab cd'' (fontSize default_options) \<le> 25 \<and>
   widthOfTextAtSize exampleLib (font default_options) ''efghijk'' (fontSize default_options) > 25 \<and>
   ''efghijk'' \<in> set (split_ws ''ab cd efghijk l'') \<and>
   breakStep (\<lambda>l. widthOfTextAtSize exampleLib (font default_options) l (fontSize default_options))
     25 ([], ''ab cd'') ''efghijk'' = ([''ab cd''], ''efghijk'')"
proof -
  let ?r = "drawWrappedText exampleLib (Some ''ab cd efghijk l'') 50 25 default_options init"
  have e: "?r = (fst ?r, snd ?r)" by simp
  have t: "drawnTexts (content (snd ?r)) = [''ab cd'', ''efghijk'', ''l'']" by code_simp
  have w: "widthOfTextAtSize exampleLib (font default_options) ''ab cd'' (fontSize default_options) \<le> 25"
    "widthOfTextAtSize exampleLib (font default_options) ''efghijk'' (fontSize default_options) > 25"
    by (simp_all add: exampleLib_def default_options_def config_defs)
  have s: "''efghijk'' \<in> set (split_ws ''ab cd efghijk l'')" by code_simp
  from drawWrappedText_line_widths[OF e]
  have "\<forall>lines cur word. cur \<noteq> [] \<longrightarrow>
          breakStep (\<lambda>l. widthOfTextAtSize exampleLib (font default_options) l
                         (fontSize default_options)) 25 (lines, cur) word =
          (if widthOfTextAtSize exampleLib (font default_options) (cur @ '' '' @ word)
                (fontSize default_options) > 25
           then (lines @ [cur], word) else (lines, cur @ '' '' @ word))"
    by (rule conjunct2)
  from this[rule_format, of "''ab cd''" "[]" "''efghijk''"]
  have b: "breakStep (\<lambda>l. widthOfTextAtSize exampleLib (font default_options) l
                         (fontSize default_options)) 25 ([], ''ab cd'') ''efghijk'' =
           ([''ab cd''], ''efghijk'')"
    by (simp add: exampleLib_def default_options_def config_defs)
  from t w s b show ?thesis by simp
qed

section \<open>One activity, fresh pages\<close>

text \<open>
  Claim C5. \<^verbatim>\<open>drawActivity\<close> adds a page before it draws anything: all pages that exist
  before the call are unchanged after it and all that it draws is on later pages. So
  for two consecutive activities the pages of the first are left as they are by the
  second, and each activity adds at least one page: no page index has content of both.
\<close>

theorem drawActivity_fresh_page:
  assumes "drawActivity L a1 i1 g0 = Inr g1" and "drawActivity L a2 i2 g1 = Inr g2"
  shows "take (length (pages g0)) (pages g1) = pages g0 \<and>
         take (length (pages g1)) (pages g2) = pages g1 \<and>
         length (pages g0) < length (pages g1) \<and> length (pages g1) < length (pages g2) \<and>
         prefix (pages g0) (previousPages g1) \<and> prefix (pages g1) (previousPages g2)"
proof -
  have k: "prefix (pages g) (previousPages g')" if "drawActivity L a i g = Inr g'" for a i g g'
  proof -
    have 0: "prefix (pages g) (previousPages (addNewPage g))"
      by (simp add: addNewPage_def pages_def)
    from that obtain g13 g14 where
      p: "drawPhotos L a g13 = Inr g14" and g': "g' = drawLine g14" and
      k: "prefix (pages g) (previousPages g13)"
      unfolding drawActivity_def Let_def
      by (auto split: sum.splits
          intro!: keeps_addSpace keeps_drawWrappedText keeps_drawLabel keeps_drawExtraFields
            keeps_drawField keeps_drawHeading 0)
    from keeps_drawPhotos[OF p k] show ?thesis by (simp add: g' keeps_drawLine)
  qed
  have *: "take (length (pages g)) (pages g') = pages g \<and> length (pages g) < length (pages g')"
    if "prefix (pages g) (previousPages g')" for g g'
  proof -
    from that obtain zs where "previousPages g' = pages g @ zs" by (auto simp: prefix_def)
    then show ?thesis by (simp add: pages_def[of g'])
  qed
  from *[OF k[OF assms(1)]] *[OF k[OF assms(2)]] k[OF assms(1)] k[OF assms(2)]
  show ?thesis by simp
qed

text \<open>Two activities, with one and with three photos, drawn one after the other.\<close>

theorem drawActivity_fresh_page_witness:
  "\<exists>g1 g2.
     drawActivity exampleLib (exampleActivity [[16, 9]]) 1 init = Inr g1 \<and>
     drawActivity exampleLib (exampleActivity [[16, 9], [4, 3], [1, 1]]) 2 g1 = Inr g2 \<and>
     take (length (pages init)) (pages g1) = pages init \<and>
     take (length (pages g1)) (pages g2) = pages g1 \<and>
     length (pages init) < length (pages g1) \<and> length (pages g1) < length (pages g2)"
proof -
  have "case drawActivity exampleLib (exampleActivity [[16, 9]]) 1 init of
          Inl e \<Rightarrow> False
        | Inr g1 \<Rightarrow>
            (case drawActivity exampleLib (exampleActivity [[16, 9], [4, 3], [1, 1]]) 2 g1 of
               Inl e \<Rightarrow> False | Inr g2 \<Rightarrow> True)"
    by code_simp
  then obtain g1 g2 where
    1: "drawActivity exampleLib (exampleActivity [[16, 9]]) 1 init = Inr g1" and
    2: "drawActivity exampleLib (exampleActivity [[16, 9], [4, 3], [1, 1]]) 2 g1 = Inr g2"
    by (auto split: sum.splits)
  from drawActivity_fresh_page[OF 1 2] 1 2 show ?thesis by blast
qed

section \<open>Reservations\<close>









section \<open>A text that is not blank has a line\<close>







section \<open>Wrapped text from any cursor below the top\<close>







section \<open>The grid from any cursor below the top\<close>




section \<open>A field that does not fit\<close>


section \<open>The cursor never rises above the top\<close>















section \<open>The organization header\<close>





section \<open>The cursor invariant\<close>




section \<open>The orphan check of wrapped text\<close>

lemma floor_lt_two_iff:
  fixes a l :: real
  assumes "0 < l"
  shows "\<lfloor>a / l\<rfloor> < 2 \<longleftrightarrow> a < 2 * l"
  using assms by (simp add: floor_less_iff pos_divide_less_eq)

lemma trim_Nil [simp]: "trim [] = []"
  by (simp add: trim_def)

lemma drawTextLine_reserve:
  "\<exists>dx. drawTextLine L x mw opts g line =
     (let g1 = snd (addPageIfNeeded (fontSize opts * lineHeight opts) g)
      in (draw (DrawText line dx (currentY g1 - fontSize opts) (fontSize opts) (font opts)
                  (color opts)) g1)
         \<lparr>currentY := currentY g1 - fontSize opts * lineHeight opts\<rparr>)"
  by (rule exI[of _ "if align opts = ''center''
             then x + (mw - widthOfTextAtSize L (font opts) line (fontSize opts)) / 2
             else if align opts = ''right''
             then x + mw - widthOfTextAtSize L (font opts) line (fontSize opts)
             else x"])
     (simp add: drawTextLine_def Let_def addPageIfNeeded_def)

text \<open>
  Claim C3. For a text that is not blank and a positive line height,
  \<^verbatim>\<open>drawWrappedText\<close> returns the block height and draws the lines one by one, starting
  from a new page exactly when the block does not fit above the bottom margin and fewer
  than 2 lines fit there; in that case nothing is drawn on the pages that existed.
  Each line first reserves one line height, adding a page when it does not fit, so a
  block that starts with at least 2 lines on the current page can continue on the next.
\<close>

theorem drawWrappedText_orphan_check:
  fixes L t x maxWidth opts g
  defines "lh \<equiv> fontSize opts * lineHeight opts"
    and "ls \<equiv> breakLines (\<lambda>l. widthOfTextAtSize L (font opts) l (fontSize opts)) maxWidth
                 (split_ws t)"
  assumes "trim t \<noteq> []" and "0 < lh"
  shows "drawWrappedText L (Some t) x maxWidth opts g =
           (real (length ls) * lh,
            foldl (drawTextLine L x maxWidth opts)
              (if currentY g - real (length ls) * lh < margins_bottom \<and>
                  currentY g - margins_bottom < 2 * lh
               then addNewPage g else g) ls) \<and>
         (currentY g - real (length ls) * lh < margins_bottom \<and>
          currentY g - margins_bottom < 2 * lh \<longrightarrow>
          prefix (pages g) (previousPages (snd (drawWrappedText L (Some t) x maxWidth opts g)))) \<and>
         (\<forall>g1 line. \<exists>dx. drawTextLine L x maxWidth opts g1 line =
            (let g2 = snd (addPageIfNeeded lh g1)
             in (draw (DrawText line dx (currentY g2 - fontSize opts) (fontSize opts)
                         (font opts) (color opts)) g2)\<lparr>currentY := currentY g2 - lh\<rparr>))"
proof -
  from assms(3) have t: "t \<noteq> []" by auto
  have f: "\<lfloor>(currentY g - margins_bottom) / lh\<rfloor> < 2 \<longleftrightarrow> currentY g - margins_bottom < 2 * lh"
    using assms(4) by (rule floor_lt_two_iff)
  have 1: "drawWrappedText L (Some t) x maxWidth opts g =
           (real (length ls) * lh,
            foldl (drawTextLine L x maxWidth opts)
              (if currentY g - real (length ls) * lh < margins_bottom \<and>
                  currentY g - margins_bottom < 2 * lh
               then addNewPage g else g) ls)"
    using t assms(3) f unfolding drawWrappedText_def Let_def lh_def ls_def by simp
  have 2: "prefix (pages g) (previousPages (snd (drawWrappedText L (Some t) x maxWidth opts g)))"
    if "currentY g - real (length ls) * lh < margins_bottom \<and>
        currentY g - margins_bottom < 2 * lh"
  proof -
    have "prefix (pages g) (previousPages (addNewPage g))"
      by (simp add: addNewPage_def pages_def)
    then have "prefix (pages g)
        (previousPages (foldl (drawTextLine L x maxWidth opts) (addNewPage g) ls))"
      by (rule keeps_foldl_drawTextLine)
    with that show ?thesis by (simp add: 1)
  qed
  have 3: "\<exists>dx. drawTextLine L x maxWidth opts g1 line =
            (let g2 = snd (addPageIfNeeded lh g1)
             in (draw (DrawText line dx (currentY g2 - fontSize opts) (fontSize opts)
                         (font opts) (color opts)) g2)\<lparr>currentY := currentY g2 - lh\<rparr>)"
    for g1 line
    unfolding lh_def by (rule drawTextLine_reserve)
  from 1 2 3 show ?thesis by blast
qed

text \<open>Three lines of 13 points. From a cursor at 80 two lines fit and the third goes to
  a new page; from 70 only one fits and the whole block moves to the new page.\<close>

theorem drawWrappedText_orphan_check_witness:
  "trim ''ab cd efghijk l'' \<noteq> [] \<and>
   0 < fontSize default_options * lineHeight default_options \<and>
   map drawnTexts (pages (snd (drawWrappedText exampleLib (Some ''ab cd efghijk l'') 50 25
      default_options (init\<lparr>currentY := 80\<rparr>)))) = [[''ab cd'', ''efghijk''], [''l'']] \<and>
   map drawnTexts (pages (snd (drawWrappedText exampleLib (Some ''ab cd efghijk l'') 50 25
      default_options (init\<lparr>currentY := 70\<rparr>)))) = [[], [''ab cd'', ''efghijk'', ''l'']] \<and>
   prefix (pages (init\<lparr>currentY := 70\<rparr>))
     (previousPages (snd (drawWrappedText exampleLib (Some ''ab cd efghijk l'') 50 25
        default_options (init\<lparr>currentY := 70\<rparr>))))"
proof -
  have a: "trim ''ab cd efghijk l'' \<noteq> []" by code_simp
  have b: "0 < fontSize default_options * lineHeight default_options"
    by (simp add: default_lineHeight)
  have c: "map drawnTexts (pages (snd (drawWrappedText exampleLib (Some ''ab cd efghijk l'') 50 25
      default_options (init\<lparr>currentY := 80\<rparr>)))) = [[''ab cd'', ''efghijk''], [''l'']]"
    by code_simp
  have d: "map drawnTexts (pages (snd (drawWrappedText exampleLib (Some ''ab cd efghijk l'') 50 25
      default_options (init\<lparr>currentY := 70\<rparr>)))) = [[], [''ab cd'', ''efghijk'', ''l'']]"
    by code_simp
  have l: "breakLines (\<lambda>l. widthOfTextAtSize exampleLib (font default_options) l
              (fontSize default_options)) 25 (split_ws ''ab cd efghijk l'') =
           [''ab cd'', ''efghijk'', ''l'']"
    by code_simp
  have e: "currentY (init\<lparr>currentY := 70\<rparr>) - real (length [''ab cd'', ''efghijk'', ''l'']) *
             (fontSize default_options * lineHeight default_options) < margins_bottom \<and>
           currentY (init\<lparr>currentY := 70\<rparr>) - margins_bottom
             < 2 * (fontSize default_options * lineHeight default_options)"
    by (simp add: default_lineHeight config_defs)
  from drawWrappedText_orphan_check[where L = exampleLib and maxWidth = 25 and x = 50 and
      g = "init\<lparr>currentY := 70\<rparr>", OF a b] e
  have "prefix (pages (init\<lparr>currentY := 70\<rparr>))
     (previousPages (snd (drawWrappedText exampleLib (Some ''ab cd efghijk l'') 50 25
        default_options (init\<lparr>currentY := 70\<rparr>))))"
    unfolding l by blast
  with a b c d show ?thesis by simp
qed

section \<open>Image sizes\<close>

lemma drawImageSize_ratio:
  assumes "0 < width img" and "0 < height img"
  shows "fst (drawImageSize img mw mh) * height img = snd (drawImageSize img mw mh) * width img"
  using assms by (simp add: drawImageSize_def Let_def split: option.splits)

lemma drawImage_content:
  assumes "embedJpg L b = Some img"
  shows "\<exists>g'. drawImage L b mw mh g = Inr (snd (drawImageSize img mw mh) + 10, g') \<and>
           content g' = content g @
             [DrawImage img margins_left
                (currentY (snd (addPageIfNeeded (snd (drawImageSize img mw mh) + 10) g))
                   - snd (drawImageSize img mw mh))
                (fst (drawImageSize img mw mh)) (snd (drawImageSize img mw mh))]"
  using assms by (simp add: drawImage_def Let_def)

text \<open>
  Claim C7. For an image that decodes with positive width and height, \<^verbatim>\<open>drawImage\<close>
  draws it once, with the width \<open>maxWidth\<close> and the height \<open>maxWidth / aspect\<close>, unless a
  non-zero \<open>maxHeight\<close> is given and that height exceeds it: then the height is
  \<open>maxHeight\<close> and the width \<open>maxHeight * aspect\<close>. Either way
  \<open>width * sourceHeight = height * sourceWidth\<close>, so the drawn ratio is the source's
  whenever the drawn height is not zero. Every cell of \<^verbatim>\<open>drawImageGrid\<close> has the one
  width and the one height of the grid, the height being the width divided by
  1600 / 900, whatever the size of the image in it.
\<close>

theorem drawImage_keeps_aspect_ratio:
  assumes "embedJpg L b = Some img" and "0 < width img" and "0 < height img"
  shows "(\<exists>g' dw dh y.
            drawImage L b maxWidth maxHeight g = Inr (dh + 10, g') \<and>
            content g' = content g @ [DrawImage img margins_left y dw dh] \<and>
            (dw, dh) =
              (case maxHeight of
                 None \<Rightarrow> (maxWidth, maxWidth / (width img / height img))
               | Some mh \<Rightarrow>
                   if mh \<noteq> 0 \<and> maxWidth / (width img / height img) > mh
                   then (mh * (width img / height img), mh)
                   else (maxWidth, maxWidth / (width img / height img))) \<and>
            dw * height img = dh * width img \<and>
            (dh \<noteq> 0 \<longrightarrow> dw / dh = width img / height img)) \<and>
         (0 < columns \<and> drawImageGrid L images columns gap g = Inr g2 \<longrightarrow>
            map Some (drawnImages (content g2)) =
            map Some (drawnImages (content g)) @
            map (\<lambda>b. map_option (\<lambda>i. (i, gridImageWidth columns gap, gridImageHeight columns gap))
                       (embedJpg L b)) images) \<and>
         gridImageHeight columns gap = gridImageWidth columns gap / (1600 / 900)"
proof -
  let ?dw = "fst (drawImageSize img maxWidth maxHeight)"
  let ?dh = "snd (drawImageSize img maxWidth maxHeight)"
  from drawImage_content[OF assms(1), of maxWidth maxHeight g] obtain g' where
    1: "drawImage L b maxWidth maxHeight g = Inr (?dh + 10, g')" and
    2: "content g' = content g @
          [DrawImage img margins_left
             (currentY (snd (addPageIfNeeded (?dh + 10) g)) - ?dh) ?dw ?dh]"
    by blast
  have 3: "(?dw, ?dh) =
              (case maxHeight of
                 None \<Rightarrow> (maxWidth, maxWidth / (width img / height img))
               | Some mh \<Rightarrow>
                   if mh \<noteq> 0 \<and> maxWidth / (width img / height img) > mh
                   then (mh * (width img / height img), mh)
                   else (maxWidth, maxWidth / (width img / height img)))"
    by (simp add: drawImageSize_def Let_def split: option.splits)
  have 4: "?dw * height img = ?dh * width img"
    using assms(2,3) by (rule drawImageSize_ratio)
  have 5: "?dw / ?dh = width img / height img" if "?dh \<noteq> 0"
    using 4 that assms(3) by (simp add: frac_eq_eq)
  have 6: "map Some (drawnImages (content g2)) =
            map Some (drawnImages (content g)) @
            map (\<lambda>b. map_option (\<lambda>i. (i, gridImageWidth columns gap, gridImageHeight columns gap))
                       (embedJpg L b)) images"
    if "0 < columns \<and> drawImageGrid L images columns gap g = Inr g2"
    using that drawImageGrid_content by blast
  have 7: "gridImageHeight columns gap = gridImageWidth columns gap / (1600 / 900)"
    by (simp add: gridImageHeight_def config_defs)
  from 1 2 3 4 5 have "\<exists>g' dw dh y.
            drawImage L b maxWidth maxHeight g = Inr (dh + 10, g') \<and>
            content g' = content g @ [DrawImage img margins_left y dw dh] \<and>
            (dw, dh) =
              (case maxHeight of
                 None \<Rightarrow> (maxWidth, maxWidth / (width img / height img))
               | Some mh \<Rightarrow>
                   if mh \<noteq> 0 \<and> maxWidth / (width img / height img) > mh
                   then (mh * (width img / height img), mh)
                   else (maxWidth, maxWidth / (width img / height img))) \<and>
            dw * height img = dh * width img \<and>
            (dh \<noteq> 0 \<longrightarrow> dw / dh = width img / height img)"
    by blast
  with 6 7 show ?thesis by blast
qed

text \<open>A 4 x 3 image: clamped to the height 250, and unclamped; and a grid of a 4 x 3 and
  a 1 x 1 image whose cells are both 251 wide and 2259 / 16 high.\<close>

theorem drawImage_keeps_aspect_ratio_witness:
  "embedJpg exampleLib [4, 3] = Some \<lparr>width = 4, height = 3\<rparr> \<and>
   drawnImages (content (snd (projr (drawImage exampleLib [4, 3] 512 (Some 250) init)))) =
     [(\<lparr>width = 4, height = 3\<rparr>, 1000 / 3, 250)] \<and>
   drawnImages (content (snd (projr (drawImage exampleLib [4, 3] 512 None init)))) =
     [(\<lparr>width = 4, height = 3\<rparr>, 512, 384)] \<and>
   (1000 / 3) / 250 = (4 :: real) / 3 \<and>
   (\<exists>g2. drawImageGrid exampleLib [[4, 3], [1, 1]] 2 10 init = Inr g2 \<and>
      drawnImages (content g2) =
        [(\<lparr>width = 4, height = 3\<rparr>, 251, 2259 / 16), (\<lparr>width = 1, height = 1\<rparr>, 251, 2259 / 16)])"
proof -
  have e: "embedJpg exampleLib [4, 3] = Some \<lparr>width = 4, height = 3\<rparr>"
    by (simp add: exampleLib_def)
  have p: "0 < width \<lparr>width = 4, height = 3\<rparr>" "0 < height \<lparr>width = 4, height = 3\<rparr>"
    by simp_all
  note T = drawImage_keeps_aspect_ratio[OF e p]
  have a: "drawnImages (content (snd (projr (drawImage exampleLib [4, 3] 512 (Some 250) init)))) =
     [(\<lparr>width = 4, height = 3\<rparr>, 1000 / 3, 250)]"
    by code_simp
  have b: "drawnImages (content (snd (projr (drawImage exampleLib [4, 3] 512 None init)))) =
     [(\<lparr>width = 4, height = 3\<rparr>, 512, 384)]"
    by code_simp
  have "case drawImageGrid exampleLib [[4, 3], [1, 1]] 2 10 init of
          Inl e \<Rightarrow> False | Inr g2 \<Rightarrow> True"
    by code_simp
  then obtain g2 where g2: "drawImageGrid exampleLib [[4, 3], [1, 1]] 2 10 init = Inr g2"
    by (auto split: sum.splits)
  with T[where columns = 2 and images = "[[4, 3], [1, 1]]" and gap = 10 and g = init
      and ?g2.0 = g2] have
    "map Some (drawnImages (content g2)) =
       map Some (drawnImages (content init)) @
       map (\<lambda>b. map_option (\<lambda>i. (i, gridImageWidth 2 10, gridImageHeight 2 10))
                  (embedJpg exampleLib b)) [[4, 3], [1, 1]]"
    by simp
  then have "map Some (drawnImages (content g2)) =
        map Some [(\<lparr>width = 4, height = 3\<rparr>, 251, 2259 / 16),
                  (\<lparr>width = 1, height = 1\<rparr>, 251, 2259 / 16)]"
    by (simp add: content_def pages_def init_def exampleLib_def gridImageWidth_def
        gridImageHeight_def config_defs)
  then have c: "drawnImages (content g2) =
        [(\<lparr>width = 4, height = 3\<rparr>, 251, 2259 / 16), (\<lparr>width = 1, height = 1\<rparr>, 251, 2259 / 16)]"
    by (simp only: inj_map_eq_map[OF inj_Some])
  from e a b c g2 show ?thesis by simp
qed

section \<open>Rows of the image grid\<close>

text \<open>
  Claim C8. For a positive number of columns \<^verbatim>\<open>drawImageGrid\<close> draws, in order, the rows
  of the partition of its images into rows of \<open>columns\<close> images: the rows together are
  the images, every row but the last has \<open>columns\<close> images, and the last has between one
  and \<open>columns\<close>. Seven images in two columns are four rows, three of two images and one
  of a single image. A row reserves its height once and then draws exactly its own
  images, all on the page that is current after the reservation: a row is never split
  over two pages and a short row gets no placeholder. The cell width is
  \<open>(contentWidth - gap * (columns - 1)) / columns\<close>.
\<close>

theorem drawImageGrid_rows_of_columns:
  assumes "0 < columns"
  shows "drawImageGrid L images columns gap g =
           drawRows L (gridImageWidth columns gap) (gridImageHeight columns gap) gap
             (chunks columns images) g \<and>
         concat (chunks columns images) = images \<and>
         (\<forall>r\<in>set (chunks columns images). 0 < length r \<and> length r \<le> columns) \<and>
         (\<forall>r\<in>set (butlast (chunks columns images)). length r = columns) \<and>
         chunks 2 [a1, a2, a3, a4, a5, a6, a7] = [[a1, a2], [a3, a4], [a5, a6], [a7]] \<and>
         gridImageWidth columns gap = (contentWidth - gap * (real columns - 1)) / real columns \<and>
         (\<forall>row g0 g1. drawRow L w h gap row g0 = Inr g1 \<longrightarrow>
            previousPages g1 = previousPages (snd (addPageIfNeeded (h + gap) g0)) \<and>
            (\<exists>ds. currentPage g1 = currentPage (snd (addPageIfNeeded (h + gap) g0)) @ ds \<and>
                  length ds = length row \<and>
                  map Some (drawnImages ds) =
                  map (\<lambda>b. map_option (\<lambda>i. (i, w, h)) (embedJpg L b)) row))"
proof -
  have 1: "drawImageGrid L images columns gap g =
           drawRows L (gridImageWidth columns gap) (gridImageHeight columns gap) gap
             (chunks columns images) g"
    using assms by (rule drawImageGrid_rows)
  have 2: "concat (chunks columns images) = images"
    using assms by (rule concat_chunks)
  have 3: "\<forall>r\<in>set (chunks columns images). 0 < length r \<and> length r \<le> columns"
    using chunks_row_length[OF assms] by blast
  have 4: "\<forall>r\<in>set (butlast (chunks columns images)). length r = columns"
    using chunks_butlast_full[OF assms] by blast
  have 5: "chunks 2 [a1, a2, a3, a4, a5, a6, a7] = [[a1, a2], [a3, a4], [a5, a6], [a7]]"
    by (simp add: chunks_step)
  have 6: "gridImageWidth columns gap = (contentWidth - gap * (real columns - 1)) / real columns"
    by (simp add: gridImageWidth_def)
  have 7: "\<forall>row g0 g1. drawRow L w h gap row g0 = Inr g1 \<longrightarrow>
            previousPages g1 = previousPages (snd (addPageIfNeeded (h + gap) g0)) \<and>
            (\<exists>ds. currentPage g1 = currentPage (snd (addPageIfNeeded (h + gap) g0)) @ ds \<and>
                  length ds = length row \<and>
                  map Some (drawnImages ds) =
                  map (\<lambda>b. map_option (\<lambda>i. (i, w, h)) (embedJpg L b)) row)"
  proof (intro allI impI)
    fix row g0 g1
    assume "drawRow L w h gap row g0 = Inr g1"
    then show "previousPages g1 = previousPages (snd (addPageIfNeeded (h + gap) g0)) \<and>
            (\<exists>ds. currentPage g1 = currentPage (snd (addPageIfNeeded (h + gap) g0)) @ ds \<and>
                  length ds = length row \<and>
                  map Some (drawnImages ds) =
                  map (\<lambda>b. map_option (\<lambda>i. (i, w, h)) (embedJpg L b)) row)"
      using drawRow_page by blast
  qed
  show ?thesis by (intro conjI) (rule 1 2 3 4 5 6 7)+
qed

text \<open>Seven images in two columns from a cursor at 400: two rows on the first page, two
  on the second, the last with one image.\<close>

theorem drawImageGrid_rows_of_columns_witness:
  "chunks 2 [[16, 9], [4, 3], [1, 1], [2, 1], [1, 2], [3, 2], [5, 4 :: nat]] =
     [[[16, 9], [4, 3]], [[1, 1], [2, 1]], [[1, 2], [3, 2]], [[5, 4]]] \<and>
   (\<exists>g1. drawImageGrid exampleLib [[16, 9], [4, 3], [1, 1], [2, 1], [1, 2], [3, 2], [5, 4]] 2 10
            (init\<lparr>currentY := 400\<rparr>) = Inr g1 \<and>
          drawRows exampleLib (gridImageWidth 2 10) (gridImageHeight 2 10) 10
            [[[16, 9], [4, 3]], [[1, 1], [2, 1]], [[1, 2], [3, 2]], [[5, 4]]]
            (init\<lparr>currentY := 400\<rparr>) = Inr g1 \<and>
          map length (pages g1) = [4, 3]) \<and>
   gridImageWidth 2 10 = 251"
proof -
  have "0 < (2 :: nat)" by simp
  note T = drawImageGrid_rows_of_columns[OF this, where L = exampleLib and gap = 10
      and g = "init\<lparr>currentY := 400\<rparr>"
      and images = "[[16, 9], [4, 3], [1, 1], [2, 1], [1, 2], [3, 2], [5, 4]]"
      and ?a1.0 = "[16, 9]" and ?a2.0 = "[4, 3]" and ?a3.0 = "[1, 1]" and ?a4.0 = "[2, 1]"
      and ?a5.0 = "[1, 2]" and ?a6.0 = "[3, 2]" and ?a7.0 = "[5, 4 :: nat]"]
  note c = T[THEN conjunct2, THEN conjunct2, THEN conjunct2, THEN conjunct2, THEN conjunct1]
  note r = T[THEN conjunct1]
  have "case drawImageGrid exampleLib [[16, 9], [4, 3], [1, 1], [2, 1], [1, 2], [3, 2], [5, 4]]
               2 10 (init\<lparr>currentY := 400\<rparr>) of
          Inl e \<Rightarrow> False | Inr g1 \<Rightarrow> map length (pages g1) = [4, 3]"
    by code_simp
  then obtain g1 where
    g1: "drawImageGrid exampleLib [[16, 9], [4, 3], [1, 1], [2, 1], [1, 2], [3, 2], [5, 4]] 2 10
           (init\<lparr>currentY := 400\<rparr>) = Inr g1" and
    l: "map length (pages g1) = [4, 3]"
    by (cases "drawImageGrid exampleLib [[16, 9], [4, 3], [1, 1], [2, 1], [1, 2], [3, 2], [5, 4]]
           2 10 (init\<lparr>currentY := 400\<rparr>)") simp_all
  from g1 have d: "drawRows exampleLib (gridImageWidth 2 10) (gridImageHeight 2 10) 10
            [[[16, 9], [4, 3]], [[1, 1], [2, 1]], [[1, 2], [3, 2]], [[5, 4]]]
            (init\<lparr>currentY := 400\<rparr>) = Inr g1"
    unfolding r c .
  have w: "gridImageWidth 2 10 = 251"
    by (simp add: gridImageWidth_def config_defs)
  show ?thesis
    by (intro conjI exI[of _ g1]) (rule c g1 d l w)+
qed

section \<open>Decode failures\<close>

text \<open>
  Claim C9. When \<^verbatim>\<open>embedJpg\<close> fails, \<^verbatim>\<open>drawImage\<close> fails; when it fails for one of its
  images, \<^verbatim>\<open>drawImageGrid\<close> fails; and \<^verbatim>\<open>generate\<close> fails, returning no pages at all,
  when it fails for the fetched banner, the header photo or a photo of an activity.
  The logo of \<^verbatim>\<open>drawOrgHeader\<close> is the exception: bytes that do not decode as PNG are
  tried as JPEG and drawn when that works, and when both fail the header is drawn as
  if no logo had been given.
\<close>

theorem decode_failure_is_fatal:
  "(embedJpg L b = None \<longrightarrow> drawImage L b maxWidth maxHeight g = Inl DecodeError) \<and>
   ((\<exists>b\<in>set images. embedJpg L b = None) \<longrightarrow>
      drawImageGrid L images columns gap g = Inl DecodeError) \<and>
   ((\<exists>b. embedJpg L b = None \<and>
          (fetched = Some b \<or> headerPhoto r = Some b \<or>
           (\<exists>a\<in>set (activities r). \<exists>ps. photos a = Some ps \<and> b \<in> set ps))) \<longrightarrow>
      generate L fetched r = Inl DecodeError) \<and>
   (embedPng L logo = None \<and> embedJpg L logo = Some j \<longrightarrow>
      (\<exists>w h. content (drawLogo L (Some logo) g) =
               content g @ [DrawImage j margins_left (currentY g - h) w h])) \<and>
   (embedPng L logo = None \<and> embedJpg L logo = None \<longrightarrow>
      drawOrgHeader L (Some logo) g = drawOrgHeader L None g)"
proof -
  have 3: "generate L fetched r = Inl DecodeError"
    if "\<exists>b. embedJpg L b = None \<and>
          (fetched = Some b \<or> headerPhoto r = Some b \<or>
           (\<exists>a\<in>set (activities r). \<exists>ps. photos a = Some ps \<and> b \<in> set ps))"
  proof -
    from that obtain b where b: "embedJpg L b = None" and
      c: "fetched = Some b \<or> headerPhoto r = Some b \<or>
           (\<exists>a\<in>set (activities r). \<exists>ps. photos a = Some ps \<and> b \<in> set ps)"
      by blast
    from c consider "fetched = Some b" | "headerPhoto r = Some b"
      | "\<exists>a\<in>set (activities r). \<exists>ps. photos a = Some ps \<and> b \<in> set ps"
      by blast
    then show ?thesis
    proof cases
      case 1
      then show ?thesis using b by (rule generate_fails_banner)
    next
      case 2
      then show ?thesis using b by (rule generate_fails_headerPhoto)
    next
      case 3
      with b have "\<exists>a\<in>set (activities r). \<exists>ps. photos a = Some ps \<and>
                     (\<exists>b\<in>set ps. embedJpg L b = None)"
        by blast
      then show ?thesis by (rule generate_fails_activity)
    qed
  qed
  have 5: "drawOrgHeader L (Some logo) g = drawOrgHeader L None g"
    if "embedPng L logo = None \<and> embedJpg L logo = None"
    using that by (simp add: drawOrgHeader_def drawLogo_def)
  from 3 5 show ?thesis
    using drawImage_fails drawImageGrid_fails drawLogo_jpeg by blast
qed


text \<open>The bytes \<open>[0, 0]\<close> decode neither as JPEG nor as PNG; \<open>[4, 3]\<close> only as JPEG.\<close>

theorem decode_failure_is_fatal_witness:
  "embedJpg exampleLib [0, 0] = None \<and>
   drawImage exampleLib [0, 0] 512 (Some 250) init = Inl DecodeError \<and>
   drawImageGrid exampleLib [[16, 9], [0, 0]] 1 10 init = Inl DecodeError \<and>
   generate exampleLib None (exampleReport [exampleActivity [[16, 9]], exampleActivity [[0, 0]]])
     = Inl DecodeError \<and>
   generate exampleLib (Some [0, 0]) (exampleReport []) = Inl DecodeError \<and>
   embedPng exampleLib [4, 3] = None \<and>
   drawnImages (content (drawLogo exampleLib (Some [4, 3]) init)) =
     [(\<lparr>width = 4, height = 3\<rparr>, 80, 60)] \<and>
   drawOrgHeader exampleLib (Some [0, 0]) init = drawOrgHeader exampleLib None init"
proof -
  have e: "embedJpg exampleLib [0, 0] = None" "embedPng exampleLib [0, 0] = None"
    "embedPng exampleLib [4, 3] = None"
    "embedJpg exampleLib [4, 3] = Some \<lparr>width = 4, height = 3\<rparr>"
    by (simp_all add: exampleLib_def)
  have lg: "drawnImages (content (drawLogo exampleLib (Some [4, 3]) init)) =
     [(\<lparr>width = 4, height = 3\<rparr>, 80, 60)]"
    by code_simp
  have a: "\<exists>b. embedJpg exampleLib b = None \<and>
          (None = Some b \<or>
           headerPhoto (exampleReport [exampleActivity [[16, 9]], exampleActivity [[0, 0]]]) = Some b \<or>
           (\<exists>a\<in>set (activities (exampleReport [exampleActivity [[16, 9]], exampleActivity [[0, 0]]])).
              \<exists>ps. photos a = Some ps \<and> b \<in> set ps))"
    by (rule exI[of _ "[0, 0]"]) (simp add: e exampleReport_def exampleActivity_def)
  have b: "\<exists>b. embedJpg exampleLib b = None \<and>
          (Some [0, 0] = Some b \<or> headerPhoto (exampleReport []) = Some b \<or>
           (\<exists>a\<in>set (activities (exampleReport [])). \<exists>ps. photos a = Some ps \<and> b \<in> set ps))"
    by (rule exI[of _ "[0, 0]"]) (simp add: e)
  have c: "\<exists>b\<in>set [[16, 9], [0, 0]]. embedJpg exampleLib b = None"
    by (simp add: e)
  from decode_failure_is_fatal[of exampleLib "[0, 0]" 512 "Some 250" init "[[16, 9], [0, 0]]" 1 10
      None "exampleReport [exampleActivity [[16, 9]], exampleActivity [[0, 0]]]" "[0, 0]"] e a c
  have 1: "drawImage exampleLib [0, 0] 512 (Some 250) init = Inl DecodeError"
    and 2: "drawImageGrid exampleLib [[16, 9], [0, 0]] 1 10 init = Inl DecodeError"
    and 3: "generate exampleLib None
              (exampleReport [exampleActivity [[16, 9]], exampleActivity [[0, 0]]]) = Inl DecodeError"
    and 4: "drawOrgHeader exampleLib (Some [0, 0]) init = drawOrgHeader exampleLib None init"
    by blast+
  from decode_failure_is_fatal[of exampleLib "[0, 0]" 512 "Some 250" init "[[16, 9], [0, 0]]" 1 10
      "Some [0, 0]" "exampleReport []" "[0, 0]"] b
  have 5: "generate exampleLib (Some [0, 0]) (exampleReport []) = Inl DecodeError"
    by blast
  from e 1 2 3 4 5 lg show ?thesis by simp
qed

end
